theory Spec2Isabelle
  imports Complex_Main "HOL-Library.Sublist"
begin

section \<open>Python values shared by the modules\<close>

text \<open>
  The repository is Python 2 code (\<open>cPickle\<close>, \<open>raw_input\<close>, text written to files opened
  in binary mode). Exceptions are values: every method returns \<open>exc + 'a\<close>, where \<open>Inl\<close> is
  the exception that leaves the method.
\<close>

datatype exc =
    OSError | TypeError | NotImplementedError | KeyError | IndexError | IOError
  | AttributeError | ZeroDivisionError | EOFError | SystemExit | InvalidDicomError
  | UnpicklingError

subsection \<open>Strings\<close>

definition lower_char :: "char \<Rightarrow> char" where
  "lower_char c =
     (case map_of (zip ''ABCDEFGHIJKLMNOPQRSTUVWXYZ'' ''abcdefghijklmnopqrstuvwxyz'') c of
        Some d \<Rightarrow> d
      | None \<Rightarrow> c)"

definition lower :: "string \<Rightarrow> string" where
  "lower s = map lower_char s"

text \<open>\<open>x in s\<close> on strings: \<open>x\<close> occurs in \<open>s\<close> as a contiguous block.\<close>

fun contains :: "string \<Rightarrow> string \<Rightarrow> bool" where
  "contains x [] = (x = [])"
| "contains x (c # cs) = (prefix x (c # cs) \<or> contains x cs)"

text \<open>\<open>s.count('/')\<close>.\<close>

definition count_slash :: "string \<Rightarrow> nat" where
  "count_slash s = length (filter (\<lambda>c. c = CHR ''/'') s)"

text \<open>
  \<open>os.path.basename\<close> (posixpath): the part after the last slash.
\<close>

fun basename :: "string \<Rightarrow> string" where
  "basename [] = []"
| "basename (c # cs) =
     (if CHR ''/'' \<in> set cs then basename cs
      else if c = CHR ''/'' then cs else c # cs)"

section \<open>components.py: depth of the DICOMDIR files\<close>

text \<open>
  \<open>os.path.relpath\<close> depends on the working directory; it is the parameter \<open>relpath\<close>.
  Depths are counted in slashes. \<open>normal_depth\<close> is the float that \<open>round\<close> returns; a
  quotient of a sum of at most \<open>2^50\<close> depths by their number is a rational whose float
  rounds to the same integer, so the floats are modelled by rationals.
\<close>

definition check_depth :: "(string \<Rightarrow> string) \<Rightarrow> string list \<Rightarrow> rat \<Rightarrow> bool \<Rightarrow> string list" where
  "check_depth relpath dirs_to_check normal_depth relative =
     filter (\<lambda>d. of_nat (count_slash (if relative then relpath d else d)) \<noteq> normal_depth)
       dirs_to_check"

definition average_depth :: "(string \<Rightarrow> string) \<Rightarrow> string list \<Rightarrow> bool \<Rightarrow> exc + rat" where
  "average_depth relpath list_of_dirs relative =
     (let list_of_dirs' = (if relative then map relpath list_of_dirs else list_of_dirs);
          depths = map (\<lambda>d. count_slash (relpath d)) list_of_dirs'
      in if length depths = 0 then Inl ZeroDivisionError
         else Inr (of_nat (sum_list depths) / of_nat (length depths)))"

text \<open>Python 2 \<open>round\<close>: to the nearest integer, a tie away from zero.\<close>

definition py_round :: "rat \<Rightarrow> rat" where
  "py_round x = (if 0 \<le> x then of_int \<lfloor>x + 1 / 2\<rfloor> else of_int \<lceil>x - 1 / 2\<rceil>)"

text \<open>
  The depth check of \<open>Preprocessor.pre_check\<close>:
  \<open>wrong_depth = check_depth(normal, normal_depth=round(average_depth(normal)), relative=True)\<close>.
\<close>

definition wrong_depth :: "(string \<Rightarrow> string) \<Rightarrow> string list \<Rightarrow> exc + string list" where
  "wrong_depth relpath normal =
     (case average_depth relpath normal True of
        Inl e \<Rightarrow> Inl e
      | Inr a \<Rightarrow> Inr (check_depth relpath normal (py_round a) True))"


section \<open>preprocess.py: the marker count of one patient directory\<close>

text \<open>
  The lists that \<open>Preprocessor.pre_check\<close> appends to: \<open>normal\<close> and the entries of the
  dictionary \<open>issues\<close> (\<open>'none'\<close>, \<open>'many'\<close>, \<open>'dcm-without-dir'\<close>, \<open>'dir-without-dcm'\<close>, and
  \<open>'dat'\<close>, which exists when \<open>action\<close> is false).
\<close>

record pre_check_state =
  normal :: "string list"
  issues_none :: "string list"
  issues_many :: "string list"
  issues_dcm_without_dir :: "string list"
  issues_dir_without_dcm :: "string list"
  issues_dat :: "string list"






section \<open>anonymizer.py: \<open>Anonymizer.anonymize_log\<close>\<close>

text \<open>\<open>str.strip()\<close>: blanks, tabs, line ends, vertical tabs and form feeds go, at both ends.\<close>

definition is_space :: "char \<Rightarrow> bool" where
  "is_space c = (c \<in> set [CHR '' '', CHR 0x09, CHR 0x0A, CHR 0x0B, CHR 0x0C, CHR 0x0D])"

definition strip :: "string \<Rightarrow> string" where
  "strip s = rev (dropWhile is_space (rev (dropWhile is_space s)))"

text \<open>
  \<open>str.replace(old, new)\<close>: every occurrence of \<open>old\<close>, from the left, without overlaps;
  an empty \<open>old\<close> matches before every character and at the end.
\<close>

fun replace_nonempty :: "string \<Rightarrow> string \<Rightarrow> string \<Rightarrow> string" where
  "replace_nonempty old new [] = []"
| "replace_nonempty old new (c # cs) =
     (if old \<noteq> [] \<and> prefix old (c # cs)
      then new @ replace_nonempty old new (drop (length old) (c # cs))
      else c # replace_nonempty old new cs)"

definition replace :: "string \<Rightarrow> string \<Rightarrow> string \<Rightarrow> string" where
  "replace old new s =
     (if old = [] then new @ concat (map (\<lambda>c. c # new) s) else replace_nonempty old new s)"

text \<open>
  A dictionary as the list of its items, in the order in which the keys were first set.
  A key that is set again keeps its place.
\<close>

fun dict_set :: "string \<Rightarrow> string \<Rightarrow> (string \<times> string) list \<Rightarrow> (string \<times> string) list" where
  "dict_set k v [] = [(k, v)]"
| "dict_set k v ((k', v') # rest) =
     (if k = k' then (k, v) # rest else (k', v') # dict_set k v rest)"

text \<open>\<open>for line in f: pat_dct[line[:40].strip()] = line[40:].strip()\<close>\<close>

fun read_patient_log :: "string list \<Rightarrow> (string \<times> string) list \<Rightarrow> (string \<times> string) list" where
  "read_patient_log [] pat_dct = pat_dct"
| "read_patient_log (line # rest) pat_dct =
     read_patient_log rest (dict_set (strip (take 40 line)) (strip (drop 40 line)) pat_dct)"

text \<open>
  \<open>for name in pat_dct.keys(): if name in line: line = line.replace(name[:-1], pat_dct[name]);
  expect_patient = False\<close>. The first argument is the list of the items of \<open>pat_dct\<close> in the
  order in which \<open>pat_dct.keys()\<close> runs through them. The loop has no \<open>break\<close>: every name is
  tried, on the line as the names before it left it.
\<close>

fun replace_names :: "(string \<times> string) list \<Rightarrow> string \<times> bool \<Rightarrow> string \<times> bool" where
  "replace_names [] acc = acc"
| "replace_names ((name, alias) # rest) (line, expect_patient) =
     replace_names rest
       (if contains name line then (replace (butlast name) alias line, False)
        else (line, expect_patient))"

text \<open>The loop \<open>for line in rf\<close>; the result is the list of the lines written.\<close>

fun anonymize_lines :: "(string \<times> string) list \<Rightarrow> bool \<Rightarrow> string list \<Rightarrow> string list" where
  "anonymize_lines pat_dct expect_patient [] = []"
| "anonymize_lines pat_dct expect_patient (line # rest) =
     (let expect_patient1 = (if contains ''PATIENT INFO'' line then True else expect_patient);
          written = (if expect_patient1 then replace_names pat_dct (line, expect_patient1)
                     else (line, expect_patient1))
      in fst written # anonymize_lines pat_dct (snd written) rest)"

text \<open>
  The files are a map from paths to their lines (each with its line end, as the iteration
  over a file gives them). The method returns \<open>True\<close>; the model returns the files after it.

  \<open>pat_dct = {}\<close> is a plain dictionary: \<open>pat_dct.keys()\<close> runs through it in the order of
  its hash table, which is not the order in which the keys were set and which the method
  does not fix. That order is the argument \<open>hash_order\<close>: it takes the items in the order
  in which they were set to the items in the order of \<open>keys()\<close>.
\<close>

definition anonymize_log ::
  "((string \<times> string) list \<Rightarrow> (string \<times> string) list) \<Rightarrow> (string \<rightharpoonup> string list)
   \<Rightarrow> string \<Rightarrow> string \<Rightarrow> exc + (string \<rightharpoonup> string list)" where
  "anonymize_log hash_order files conv_log patient_log =
     (case files conv_log of
        None \<Rightarrow> Inl OSError
      | Some conv_lines \<Rightarrow>
          (case files patient_log of
             None \<Rightarrow> Inl OSError
           | Some patient_lines \<Rightarrow>
               let pat_dct = hash_order (read_patient_log patient_lines []);
                   filename = take (length conv_log - 4) conv_log @ ''_anon.txt''
               in Inr (files(filename \<mapsto> anonymize_lines pat_dct False conv_lines))))"

subsection \<open>The substitution as the specification words it\<close>

text \<open>
  For comparison with \<open>anonymize_lines\<close>: in a block, the first occurrence of a known name
  is replaced by the alias, once, and the rest of the text is left alone.
\<close>

fun spec_replace_first :: "string \<Rightarrow> string \<Rightarrow> string \<Rightarrow> string" where
  "spec_replace_first old new [] = (if old = [] then new else [])"
| "spec_replace_first old new (c # cs) =
     (if prefix old (c # cs) then new @ drop (length old) (c # cs)
      else c # spec_replace_first old new cs)"

fun spec_anonymize_lines :: "(string \<times> string) list \<Rightarrow> bool \<Rightarrow> string list \<Rightarrow> string list" where
  "spec_anonymize_lines pat_dct expect_patient [] = []"
| "spec_anonymize_lines pat_dct expect_patient (line # rest) =
     (if contains ''PATIENT INFO'' line \<or> expect_patient
      then (case find (\<lambda>(name, alias). contains name line) pat_dct of
              None \<Rightarrow> line # spec_anonymize_lines pat_dct True rest
            | Some (name, alias) \<Rightarrow>
                spec_replace_first name alias line # spec_anonymize_lines pat_dct False rest)
      else line # spec_anonymize_lines pat_dct False rest)"

section \<open>The process and the file system\<close>

subsection \<open>posixpath\<close>

text \<open>\<open>s.split('/')\<close>\<close>

fun split_slash :: "string \<Rightarrow> string list" where
  "split_slash [] = [[]]"
| "split_slash (c # cs) =
     (if c = CHR ''/'' then [] # split_slash cs
      else (case split_slash cs of w # ws \<Rightarrow> (c # w) # ws | [] \<Rightarrow> [[c]]))"

text \<open>\<open>'/'.join(comps)\<close>\<close>

fun join_slash :: "string list \<Rightarrow> string" where
  "join_slash [] = []"
| "join_slash [w] = w"
| "join_slash (w # ws) = w @ CHR ''/'' # join_slash ws"

definition isabs :: "string \<Rightarrow> bool" where
  "isabs p = (take 1 p = ''/'')"

text \<open>\<open>os.path.join(a, b)\<close>\<close>

definition join :: "string \<Rightarrow> string \<Rightarrow> string" where
  "join a b =
     (if isabs b then b
      else if a = [] \<or> last a = CHR ''/'' then a @ b
      else a @ CHR ''/'' # b)"

text \<open>
  The loop of \<open>os.path.normpath\<close> over the components: empty ones and \<open>.\<close> are dropped,
  \<open>..\<close> removes the component before it when there is one to remove.
\<close>

fun norm_comps :: "bool \<Rightarrow> string list \<Rightarrow> string list \<Rightarrow> string list" where
  "norm_comps initial_slashes new_comps [] = new_comps"
| "norm_comps initial_slashes new_comps (part # comps) =
     (if part = [] \<or> part = ''.'' then norm_comps initial_slashes new_comps comps
      else if part \<noteq> ''..'' \<or> (\<not> initial_slashes \<and> new_comps = [])
              \<or> (new_comps \<noteq> [] \<and> last new_comps = ''..'')
        then norm_comps initial_slashes (new_comps @ [part]) comps
      else if new_comps \<noteq> [] then norm_comps initial_slashes (butlast new_comps) comps
      else norm_comps initial_slashes new_comps comps)"

definition normpath :: "string \<Rightarrow> string" where
  "normpath path =
     (if path = [] then ''.''
      else
        let initial_slashes = isabs path;
            two = (initial_slashes \<and> take 2 path = ''//'' \<and> take 3 path \<noteq> ''///'');
            path' = join_slash (norm_comps initial_slashes [] (split_slash path));
            path'' = (if two then ''//'' @ path' else if initial_slashes then ''/'' @ path'
                      else path')
        in if path'' = [] then ''.'' else path'')"

text \<open>\<open>os.path.abspath(path)\<close> in the working directory \<open>cwd\<close>.\<close>

definition abspath :: "string \<Rightarrow> string \<Rightarrow> string" where
  "abspath cwd path = normpath (if isabs path then path else join cwd path)"

text \<open>
  \<open>os.path.split(p)[0]\<close>: the part up to the last slash, without its trailing slashes
  unless it consists of slashes only.
\<close>

definition path_head :: "string \<Rightarrow> string" where
  "path_head p =
     (let head = rev (dropWhile (\<lambda>c. c \<noteq> CHR ''/'') (rev p))
      in if head \<noteq> [] \<and> (\<exists>c \<in> set head. c \<noteq> CHR ''/'')
         then rev (dropWhile (\<lambda>c. c = CHR ''/'') (rev head))
         else head)"

subsection \<open>Files\<close>

text \<open>
  What \<open>pickle.load\<close> can return: the ordered dictionary of names and aliases, as the list
  of its items in their order, or another object, of which only its truth value matters.
\<close>

datatype pyobj = OrderedDict "(string \<times> string) list" | OtherObject bool

text \<open>
  A file is what the libraries read from it: a DICOM data set with its
  \<open>PatientsName\<close> (if it has one) and whether \<open>save_as\<close> of it raises \<open>ValueError\<close>; a
  DICOMDIR, by the lines of its printed form; a pickle, by the object that was dumped (the
  pickle library is taken to load what it dumped); a text, by its lines.
\<close>

datatype content =
    Dataset "string option" bool
  | DicomDir "string list"
  | Pickle pyobj
  | Text "string list"
  | Opaque

text \<open>A file carries the description that \<open>magic.from_file\<close> gives of it.\<close>

datatype node = Dir | File string content

text \<open>
  The file system is the list of its entries under their absolute normal paths, in the
  order in which \<open>os.listdir\<close> and \<open>os.walk\<close> meet them. Links are not modelled.
\<close>

record os_state =
  cwd :: string
  fs :: "(string \<times> node) list"
  inputs :: "string list"

text \<open>
  The entry at a path; the empty path names nothing, and a path that ends in a slash
  names no file.
\<close>

definition lookup :: "'a os_state_scheme \<Rightarrow> string \<Rightarrow> node option" where
  "lookup s p =
     (if p = [] then None
      else (case map_of (fs s) (abspath (cwd s) p) of
              Some (File m c) \<Rightarrow> if last p = CHR ''/'' then None else Some (File m c)
            | entry \<Rightarrow> entry))"

definition exists :: "'a os_state_scheme \<Rightarrow> string \<Rightarrow> bool" where
  "exists s p = (lookup s p \<noteq> None)"

definition isdir :: "'a os_state_scheme \<Rightarrow> string \<Rightarrow> bool" where
  "isdir s p = (lookup s p = Some Dir)"

text \<open>\<open>q\<close> lies below the directory \<open>d\<close> (both absolute and normal).\<close>

definition below :: "string \<Rightarrow> string \<Rightarrow> bool" where
  "below d q = (q \<noteq> d \<and> prefix (if d = ''/'' then d else d @ ''/'') q)"

text \<open>\<open>os.listdir(p)\<close>\<close>

definition listdir :: "'a os_state_scheme \<Rightarrow> string \<Rightarrow> exc + string list" where
  "listdir s p =
     (let d = abspath (cwd s) p
      in if lookup s p = Some Dir
         then Inr (map (\<lambda>(q, n). basename q) (filter (\<lambda>(q, n). q \<noteq> d \<and> path_head q = d) (fs s)))
         else Inl OSError)"

text \<open>
  The files that \<open>os.walk(pt)\<close> meets, each as
  \<open>os.path.join(os.path.abspath(directory), filename)\<close>.
\<close>

definition walk_files :: "'a os_state_scheme \<Rightarrow> string \<Rightarrow> string list" where
  "walk_files s pt =
     map fst (filter (\<lambda>(q, n). n \<noteq> Dir \<and> below (abspath (cwd s) pt) q) (fs s))"

subsection \<open>Statements that can raise\<close>

text \<open>
  A statement takes the state and returns an exception or a value, with the state it
  leaves behind: what was assigned before an exception stays assigned.
\<close>

definition return :: "'a \<Rightarrow> 's \<Rightarrow> (exc + 'a) \<times> 's" where
  "return x s = (Inr x, s)"

definition raise :: "exc \<Rightarrow> 's \<Rightarrow> (exc + 'a) \<times> 's" where
  "raise e s = (Inl e, s)"

definition seq :: "('s \<Rightarrow> (exc + 'a) \<times> 's) \<Rightarrow> ('a \<Rightarrow> 's \<Rightarrow> (exc + 'b) \<times> 's) \<Rightarrow> 's \<Rightarrow> (exc + 'b) \<times> 's" where
  "seq m f s = (case m s of (Inl e, s') \<Rightarrow> (Inl e, s') | (Inr x, s') \<Rightarrow> f x s')"

text \<open>A pure computation that can raise, run in the state.\<close>

definition lift :: "('s \<Rightarrow> exc + 'a) \<Rightarrow> 's \<Rightarrow> (exc + 'a) \<times> 's" where
  "lift f s = (f s, s)"

text \<open>\<open>for x in xs: body(x)\<close>; an exception ends the loop.\<close>

fun for_each :: "('a \<Rightarrow> 's \<Rightarrow> (exc + unit) \<times> 's) \<Rightarrow> 'a list \<Rightarrow> 's \<Rightarrow> (exc + unit) \<times> 's" where
  "for_each body [] s = (Inr (), s)"
| "for_each body (x # xs) s =
     (case body x s of (Inl e, s') \<Rightarrow> (Inl e, s') | (Inr u, s') \<Rightarrow> for_each body xs s')"

text \<open>\<open>os.chdir(p)\<close>\<close>

definition chdir :: "string \<Rightarrow> 'a os_state_scheme \<Rightarrow> (exc + unit) \<times> 'a os_state_scheme" where
  "chdir p s = (if isdir s p then (Inr (), s\<lparr>cwd := abspath (cwd s) p\<rparr>) else (Inl OSError, s))"

text \<open>\<open>input(prompt)\<close>: the next line of the standard input.\<close>

definition input :: "'a os_state_scheme \<Rightarrow> (exc + string) \<times> 'a os_state_scheme" where
  "input s = (case inputs s of [] \<Rightarrow> (Inl EOFError, s)
              | answer # rest \<Rightarrow> (Inr answer, s\<lparr>inputs := rest\<rparr>))"

text \<open>\<open>os.remove(p)\<close>\<close>

definition remove :: "string \<Rightarrow> 'a os_state_scheme \<Rightarrow> (exc + unit) \<times> 'a os_state_scheme" where
  "remove p s =
     (case lookup s p of
        Some (File m c) \<Rightarrow>
          (Inr (), s\<lparr>fs := filter (\<lambda>(q, n). q \<noteq> abspath (cwd s) p) (fs s)\<rparr>)
      | _ \<Rightarrow> (Inl OSError, s))"

text \<open>
  \<open>os.rename(src, dst)\<close>: the entry and all entries below it move. A target that exists
  is refused.
\<close>

definition rename :: "string \<Rightarrow> string \<Rightarrow> 'a os_state_scheme \<Rightarrow> (exc + unit) \<times> 'a os_state_scheme" where
  "rename src dst s =
     (let a = abspath (cwd s) src; b = abspath (cwd s) dst
      in if \<not> exists s src \<or> exists s dst \<or> \<not> isdir s (path_head b) then (Inl OSError, s)
         else (Inr (), s\<lparr>fs := map (\<lambda>(q, n). if q = a \<or> below a q
                                              then (b @ drop (length a) q, n) else (q, n))
                                    (fs s)\<rparr>))"

text \<open>Writing a file: \<open>open(p, 'wb')\<close> needs the directory, and \<open>p\<close> not to be a directory.\<close>

definition write_file :: "string \<Rightarrow> string \<Rightarrow> content \<Rightarrow> 'a os_state_scheme \<Rightarrow> (exc + unit) \<times> 'a os_state_scheme" where
  "write_file p m c s =
     (let a = abspath (cwd s) p
      in if p = [] \<or> last p = CHR ''/'' \<or> map_of (fs s) (path_head a) \<noteq> Some Dir
            \<or> map_of (fs s) a = Some Dir
         then (Inl IOError, s)
         else (Inr (), s\<lparr>fs := (if map_of (fs s) a = None then fs s @ [(a, File m c)]
                                 else map (\<lambda>(q, n). if q = a then (q, File m c) else (q, n))
                                        (fs s))\<rparr>))"

text \<open>\<open>os.mkdir(p)\<close>\<close>

definition mkdir :: "string \<Rightarrow> 'a os_state_scheme \<Rightarrow> (exc + unit) \<times> 'a os_state_scheme" where
  "mkdir p s =
     (let a = abspath (cwd s) p
      in if p = [] \<or> exists s p \<or> \<not> isdir s (path_head a) then (Inl OSError, s)
         else (Inr (), s\<lparr>fs := fs s @ [(a, Dir)]\<rparr>))"

section \<open>difflib: \<open>SequenceMatcher(None, a, b).ratio()\<close>\<close>

text \<open>
  The matcher without junk: the longest block that \<open>a\<close> and \<open>b\<close> share is taken, the one
  that starts earliest in \<open>a\<close> and, among those, earliest in \<open>b\<close>; the pieces to its left
  and the pieces to its right are matched in the same way. The ratio is twice the number
  of matched characters over the sum of the lengths; it is a float in the source and a
  rational here. (For a \<open>b\<close> of 200 characters or more the library also drops the
  characters that fill more than a hundredth of \<open>b\<close>; names are shorter.)
\<close>

fun match_length :: "'a list \<Rightarrow> 'a list \<Rightarrow> nat" where
  "match_length (x # xs) (y # ys) = (if x = y then Suc (match_length xs ys) else 0)"
| "match_length xs ys = 0"

definition better :: "'a list \<Rightarrow> 'a list \<Rightarrow> nat \<times> nat \<times> nat \<Rightarrow> nat \<times> nat \<Rightarrow> nat \<times> nat \<times> nat" where
  "better a b best ij =
     (let k = match_length (drop (fst ij) a) (drop (snd ij) b)
      in if k > snd (snd best) then (fst ij, snd ij, k) else best)"

definition find_longest_match :: "'a list \<Rightarrow> 'a list \<Rightarrow> nat \<times> nat \<times> nat" where
  "find_longest_match a b =
     foldl (better a b) (0, 0, 0) (List.product [0..<length a] [0..<length b])"

lemma foldl_better_cases:
  "foldl (better a b) best ps = best \<or>
   (\<exists>ij \<in> set ps. foldl (better a b) best ps
                      = (fst ij, snd ij, match_length (drop (fst ij) a) (drop (snd ij) b)))"
proof (induction ps arbitrary: best)
  case Nil
  then show ?case by simp
next
  case (Cons p ps)
  from Cons.IH [of "better a b best p"] show ?case
    by (auto simp: better_def Let_def split: if_splits)
qed

lemma find_longest_match_bounds:
  assumes "find_longest_match a b = (i, j, k)" and "k \<noteq> 0"
  shows "i < length a \<and> j < length b"
proof -
  from foldl_better_cases [of a b "(0, 0, 0)" "List.product [0..<length a] [0..<length b]"] assms
  show ?thesis by (auto simp: find_longest_match_def)
qed

function matches :: "'a list \<Rightarrow> 'a list \<Rightarrow> nat" where
  "matches a b =
     (case find_longest_match a b of
        (i, j, k) \<Rightarrow>
          if k = 0 then 0
          else k + matches (take i a) (take j b) + matches (drop (i + k) a) (drop (j + k) b))"
  by pat_completeness auto
termination
proof (relation "measure (\<lambda>(a, b). length a + length b)", goal_cases)
  case 1
  then show ?case by simp
next
  case (2 a b i jk j k)
  then have "find_longest_match a b = (i, j, k)" by simp
  from find_longest_match_bounds [OF this] 2 show ?case by simp
next
  case (3 a b i jk j k)
  then have "find_longest_match a b = (i, j, k)" by simp
  from find_longest_match_bounds [OF this] 3 have "i < length a" and "0 < k" by simp_all
  then have "length a - (i + k) < length a" by arith
  then show ?case by simp
qed

definition ratio :: "'a list \<Rightarrow> 'a list \<Rightarrow> rat" where
  "ratio a b =
     (if length a + length b = 0 then 1
      else 2 * of_nat (matches a b) / of_nat (length a + length b))"

section \<open>components.py: finding DICOM files\<close>

text \<open>A path argument is a string or a list of strings; anything else is refused.\<close>

datatype pts = PathStr string | PathList "string list" | NotAPath

text \<open>
  \<open>is_dicom(dcm)\<close> for a string: \<open>magic.from_file\<close> of a directory raises the \<open>IOError\<close>
  that the function turns into \<open>False\<close>.
\<close>

definition is_dicom :: "'a os_state_scheme \<Rightarrow> string \<Rightarrow> exc + bool" where
  "is_dicom s dcm =
     (case lookup s dcm of
        None \<Rightarrow> Inl OSError
      | Some Dir \<Rightarrow> Inr False
      | Some (File m c) \<Rightarrow>
          Inr (contains ''dicom'' (lower m) \<and> \<not> contains ''dicomdir'' (lower dcm)))"

text \<open>\<open>for filename in file_lst: ... if is_dicom(f): lst.append(f)\<close>\<close>

fun append_dicom :: "'a os_state_scheme \<Rightarrow> string list \<Rightarrow> string list \<Rightarrow> exc + string list" where
  "append_dicom s [] lst = Inr lst"
| "append_dicom s (f # rest) lst =
     (case is_dicom s f of
        Inl e \<Rightarrow> Inl e
      | Inr d \<Rightarrow> append_dicom s rest (if d then lst @ [f] else lst))"

text \<open>\<open>for pt in pts: if os.path.exists(pt): for directory, _, file_lst in os.walk(pt): ...\<close>\<close>

fun search_dicom :: "'a os_state_scheme \<Rightarrow> string list \<Rightarrow> string list \<Rightarrow> exc + string list" where
  "search_dicom s [] lst = Inr lst"
| "search_dicom s (pt # rest) lst =
     (if exists s pt
      then (case append_dicom s (walk_files s pt) lst of
              Inl e \<Rightarrow> Inl e
            | Inr lst' \<Rightarrow> search_dicom s rest lst')
      else search_dicom s rest lst)"

lemma contains_subset: "contains x s \<Longrightarrow> set x \<subseteq> set s"
proof (induction s)
  case Nil
  then show ?case by simp
next
  case (Cons c s)
  from Cons.prems have "prefix x (c # s) \<or> contains x s" by simp
  then show ?case
  proof
    assume "prefix x (c # s)"
    then show ?thesis by (rule set_mono_prefix)
  next
    assume "contains x s"
    from Cons.IH [OF this] show ?thesis by auto
  qed
qed

lemma dicomdir_not_only_slashes:
  assumes "contains ''dicomdir'' (lower p)"
  shows "\<exists>c \<in> set p. c \<noteq> CHR ''/''"
proof -
  from contains_subset [OF assms] have "CHR ''d'' \<in> set (lower p)" by simp
  then obtain c where c: "c \<in> set p" "lower_char c = CHR ''d''" by (auto simp: lower_def)
  have "lower_char CHR ''/'' = CHR ''/''" by (simp add: lower_char_def)
  with c have "c \<noteq> CHR ''/''" by auto
  with c show ?thesis by blast
qed

lemma path_head_shorter:
  assumes "\<exists>c \<in> set p. c \<noteq> CHR ''/''"
  shows "length (path_head p) < length p"
proof -
  define d where "d = dropWhile (\<lambda>c. c \<noteq> CHR ''/'') (rev p)"
  define t where "t = takeWhile (\<lambda>c. c \<noteq> CHR ''/'') (rev p)"
  have split: "rev p = t @ d" by (simp add: t_def d_def)
  have len: "length p = length t + length d"
    using arg_cong [OF split, of length] by simp
  have ph: "path_head p =
              (if d \<noteq> [] \<and> (\<exists>c \<in> set d. c \<noteq> CHR ''/'')
               then rev (dropWhile (\<lambda>c. c = CHR ''/'') d) else rev d)"
    unfolding path_head_def Let_def rev_rev_ident set_rev rev_is_Nil_conv d_def ..
  show ?thesis
  proof (cases "d \<noteq> [] \<and> (\<exists>c \<in> set d. c \<noteq> CHR ''/'')")
    case True
    then have "d \<noteq> []" by simp
    then have "\<not> (hd d \<noteq> CHR ''/'')"
      unfolding d_def by (rule hd_dropWhile)
    with \<open>d \<noteq> []\<close> obtain u where u: "d = CHR ''/'' # u" by (cases d) auto
    have "length (dropWhile (\<lambda>c. c = CHR ''/'') u) \<le> length u"
      by (rule length_dropWhile_le)
    then have "length (dropWhile (\<lambda>c. c = CHR ''/'') d) < length d"
      by (simp add: u)
    moreover have "path_head p = rev (dropWhile (\<lambda>c. c = CHR ''/'') d)"
      unfolding ph by (rule if_P [OF True])
    ultimately show ?thesis using len by simp
  next
    case False
    have "t \<noteq> []"
    proof
      assume "t = []"
      with split have "rev p = d" by simp
      then have "set d = set p" by (metis set_rev)
      with False assms show False by auto
    qed
    then have "0 < length t" by simp
    moreover have "path_head p = rev d"
      unfolding ph by (rule if_not_P [OF False])
    ultimately show ?thesis using len by simp
  qed
qed

text \<open>
  \<open>find_dcm(pts)\<close>. A path to something named like a DICOMDIR that is no image sends the
  search to the directory that holds it.
\<close>

function find_dcm :: "'a os_state_scheme \<Rightarrow> pts \<Rightarrow> exc + string list" where
  "find_dcm s (PathStr p) =
     (if \<not> exists s p then Inl OSError
      else (case is_dicom s p of
              Inl e \<Rightarrow> Inl e
            | Inr d \<Rightarrow>
                if d then Inr [p]
                else if contains ''dicomdir'' (lower p) then find_dcm s (PathStr (path_head p))
                else if \<not> isdir s p then Inl TypeError
                else search_dicom s [p] []))"
| "find_dcm s (PathList ps) = search_dicom s ps []"
| "find_dcm s NotAPath = Inl TypeError"
  by pat_completeness auto
termination
proof (relation "measure (\<lambda>(s, pts). case pts of PathStr p \<Rightarrow> length p | _ \<Rightarrow> 0)",
       goal_cases)
  case 1
  then show ?case by simp
next
  case (2 s p d)
  from path_head_shorter [OF dicomdir_not_only_slashes [OF 2(4)]] show ?case by simp
qed

text \<open>\<open>find_dcmdir(pts)\<close>: the directories that hold a file named \<open>DICOMDIR\<close>.\<close>

fun search_dicomdir :: "'a os_state_scheme \<Rightarrow> string list \<Rightarrow> string list" where
  "search_dicomdir s [] = []"
| "search_dicomdir s (pt # rest) =
     (if exists s pt
      then map path_head (filter (\<lambda>q. basename q = ''DICOMDIR'') (walk_files s pt))
      else [])
     @ search_dicomdir s rest"

definition find_dcmdir :: "'a os_state_scheme \<Rightarrow> pts \<Rightarrow> exc + string list" where
  "find_dcmdir s pts =
     (case pts of
        PathStr p \<Rightarrow> if \<not> exists s p then Inl OSError else Inr (search_dicomdir s [p])
      | PathList ps \<Rightarrow> Inr (search_dicomdir s ps)
      | NotAPath \<Rightarrow> Inl TypeError)"

section \<open>anonymizer.py: the class \<open>Anonymizer\<close>\<close>

subsection \<open>Strings, numbers and dictionaries\<close>

text \<open>\<open>str(n)\<close> for a natural number.\<close>

fun str :: "nat \<Rightarrow> string" where
  "str n = (if n < 10 then [''0123456789'' ! n]
            else str (n div 10) @ [''0123456789'' ! (n mod 10)])"

definition subject :: "nat \<Rightarrow> string" where
  "subject x = ''Subject'' @ str x"

text \<open>\<open>s.isdigit()\<close> and \<open>int(s)\<close> of a string of digits.\<close>

definition isdigit :: "string \<Rightarrow> bool" where
  "isdigit s = (s \<noteq> [] \<and> (\<forall>c \<in> set s. c \<in> set ''0123456789''))"

definition digit_value :: "char \<Rightarrow> nat" where
  "digit_value c = length (takeWhile (\<lambda>d. d \<noteq> c) ''0123456789'')"

definition int_of_digits :: "string \<Rightarrow> nat" where
  "int_of_digits s = foldl (\<lambda>n c. 10 * n + digit_value c) 0 s"

text \<open>\<open>s.split()\<close>: the pieces between runs of white space.\<close>

fun split_words :: "string \<Rightarrow> string \<Rightarrow> string list" where
  "split_words word [] = (if word = [] then [] else [word])"
| "split_words word (c # cs) =
     (if is_space c then (if word = [] then [] else [word]) @ split_words [] cs
      else split_words (word @ [c]) cs)"

text \<open>\<open>xs[i]\<close>: a negative index counts from the end.\<close>

definition index :: "'a list \<Rightarrow> int \<Rightarrow> exc + 'a" where
  "index xs i =
     (if - int (length xs) \<le> i \<and> i < int (length xs)
      then Inr (xs ! nat (if i < 0 then int (length xs) + i else i))
      else Inl IndexError)"

text \<open>\<open>[xs[i] for i in is]\<close>\<close>

fun index_each :: "'a list \<Rightarrow> int list \<Rightarrow> exc + 'a list" where
  "index_each xs [] = Inr []"
| "index_each xs (i # rest) =
     (case index xs i of
        Inl e \<Rightarrow> Inl e
      | Inr x \<Rightarrow> (case index_each xs rest of Inl e \<Rightarrow> Inl e | Inr ys \<Rightarrow> Inr (x # ys)))"

text \<open>\<open>d.update(pairs)\<close> and \<open>OrderedDict(pairs)\<close>: the pairs are set one after the other.\<close>

fun dict_update :: "(string \<times> string) list \<Rightarrow> (string \<times> string) list \<Rightarrow> (string \<times> string) list" where
  "dict_update [] d = d"
| "dict_update ((k, v) # rest) d = dict_update rest (dict_set k v d)"

text \<open>\<open>x[-5:] != '_anon'\<close>\<close>

definition not_anon :: "string \<Rightarrow> bool" where
  "not_anon x = (drop (length x - 5) x \<noteq> ''_anon'')"

text \<open>\<open>'{:<40}{}\n'.format(key, val)\<close>\<close>

definition log_line :: "string \<Rightarrow> string \<Rightarrow> string" where
  "log_line key val = key @ replicate (40 - length key) CHR '' '' @ val @ [CHR 0x0A]"

subsection \<open>The object\<close>

text \<open>
  The attributes of the object together with the process it runs in. \<open>dct\<close> is \<open>None\<close>
  until a dictionary is loaded or created; \<open>log_dir\<close> and \<open>log_dict\<close> are attributes only
  when the constructor got a log directory and \<open>log=True\<close>.
\<close>

record anonymizer = os_state +
  paths :: pts
  verbose :: bool
  similar :: bool
  only_dirs :: bool
  log' :: bool
  dct :: "pyobj option"
  failed :: "string list"
  attempted :: nat
  processed :: nat
  previous_entries :: nat
  yes_to_all :: bool
  threshold :: rat
  log_dir :: "string option"
  log_dict :: "(string \<times> string) list"

text \<open>The items of \<open>self.dct\<close>, which the methods take to be an \<open>OrderedDict\<close>.\<close>

definition get_dct :: "anonymizer \<Rightarrow> exc + (string \<times> string) list" where
  "get_dct s = (case dct s of Some (OrderedDict d) \<Rightarrow> Inr d | _ \<Rightarrow> Inl AttributeError)"

subsection \<open>\<open>anonymize_dicom\<close>\<close>

text \<open>
  The string comparison: \<open>if self.similar: if original: ... if comp > self.threshold:
  raise TypeError(...) else: raise NotImplementedError(...)\<close>.
\<close>

definition compare_names :: "anonymizer \<Rightarrow> string option \<Rightarrow> string option \<Rightarrow> exc + unit" where
  "compare_names s patients_name original =
     (if similar s then
        (case original of
           None \<Rightarrow> Inl NotImplementedError
         | Some orig \<Rightarrow>
             if orig = [] then Inl NotImplementedError
             else (case patients_name of
                     None \<Rightarrow> Inl AttributeError
                   | Some name \<Rightarrow>
                       if ratio (lower name) (lower orig) > threshold s then Inl TypeError
                       else Inr ()))
      else Inr ())"

text \<open>
  What follows \<open>ds.save_as(dcm + '_anon')\<close> inside the \<open>try\<close>: only with \<open>verbose\<close> is the
  image counted as processed, and with \<open>log\<close> the name is logged, or a \<open>KeyError\<close> raised
  when the name is logged already under this very alias.
\<close>

definition log_saved :: "string \<Rightarrow> string \<Rightarrow> anonymizer \<Rightarrow> (exc + unit) \<times> anonymizer" where
  "log_saved old alias s =
     (if verbose s then
        (if log' s then
           (case map_of (log_dict s) old of
              None \<Rightarrow> (Inr (), s\<lparr>processed := processed s + 1,
                                 log_dict := dict_set old alias (log_dict s)\<rparr>)
            | Some logged \<Rightarrow>
                if logged = alias then (Inl KeyError, s)
                else (Inr (), s\<lparr>processed := processed s + 1\<rparr>))
         else (Inr (), s\<lparr>processed := processed s + 1\<rparr>))
      else (Inr (), s))"

text \<open>
  \<open>anonymize_dicom(dcm, alias, original)\<close>. A \<open>ValueError\<close> of \<open>save_as\<close> is the one
  exception that is caught: the path goes to \<open>self.failed\<close>.
\<close>

definition anonymize_dicom ::
  "string \<Rightarrow> string \<Rightarrow> string option \<Rightarrow> anonymizer \<Rightarrow> (exc + unit) \<times> anonymizer" where
  "anonymize_dicom dcm alias original s0 =
     (let s = s0\<lparr>attempted := attempted s0 + 1\<rparr>
      in case lookup s dcm of
           None \<Rightarrow> (Inl IOError, s)
         | Some Dir \<Rightarrow> (Inl IOError, s)
         | Some (File m (Dataset patients_name save_raises)) \<Rightarrow>
             (case compare_names s patients_name original of
                Inl e \<Rightarrow> (Inl e, s)
              | Inr u \<Rightarrow>
                  (case patients_name of
                     None \<Rightarrow> (Inl AttributeError, s)
                   | Some old \<Rightarrow>
                       if save_raises then (Inr (), s\<lparr>failed := failed s @ [dcm]\<rparr>)
                       else seq (write_file (dcm @ ''_anon'') m (Dataset (Some alias) save_raises))
                              (\<lambda>u. log_saved old alias) s))
         | Some (File m c) \<Rightarrow> (Inl InvalidDicomError, s))"

subsection \<open>\<open>anonymize_patient\<close>\<close>

definition anonymize_patient :: "string \<Rightarrow> anonymizer \<Rightarrow> (exc + unit) \<times> anonymizer" where
  "anonymize_patient patient_name0 s =
     (let patient_name = (if CHR ''/'' \<in> set patient_name0 then last (split_slash patient_name0)
                          else patient_name0)
      in case get_dct s of
           Inl e \<Rightarrow> (Inl e, s)
         | Inr d \<Rightarrow>
             (case map_of d patient_name of
                None \<Rightarrow> (Inl KeyError, s)
              | Some patient_alias \<Rightarrow>
                  (case find_dcm s (PathStr patient_name) of
                     Inl e \<Rightarrow> (Inl e, s)
                   | Inr ls \<Rightarrow>
                       for_each (\<lambda>d. anonymize_dicom d patient_alias
                                        (if similar s then Some patient_name else None))
                         ls s)))"

subsection \<open>\<open>cleanup\<close>\<close>

text \<open>\<open>if not pts: pts = self.paths\<close>\<close>

definition or_paths :: "pts option \<Rightarrow> anonymizer \<Rightarrow> pts" where
  "or_paths pts s =
     (case pts of
        None \<Rightarrow> paths s
      | Some (PathStr p) \<Rightarrow> if p = [] then paths s else PathStr p
      | Some (PathList ps) \<Rightarrow> if ps = [] then paths s else PathList ps
      | Some NotAPath \<Rightarrow> NotAPath)"

text \<open>
  \<open>os.path.exists\<close> of a list: \<open>os.stat\<close> refuses the argument with a \<open>TypeError\<close>, which
  \<open>exists\<close> does not catch.
\<close>

definition exists_list :: "'a os_state_scheme \<Rightarrow> string list \<Rightarrow> exc + bool" where
  "exists_list s ps = Inl TypeError"

text \<open>\<open>old_dcm = [x for x in dcm_list if x[-5:] != '_anon']; for d in old_dcm: os.remove(d)\<close>\<close>

definition remove_old :: "string \<Rightarrow> anonymizer \<Rightarrow> (exc + unit) \<times> anonymizer" where
  "remove_old p s =
     (case find_dcm s (PathStr p) of
        Inl e \<Rightarrow> (Inl e, s)
      | Inr dcm_list \<Rightarrow> for_each remove (filter not_anon dcm_list) s)"

text \<open>
  \<open>cleanup(pts)\<close>. In the loop over a list the test is \<open>os.path.exists(pts)\<close>, of the
  list, where the message names \<open>p\<close>.
\<close>

definition cleanup :: "pts option \<Rightarrow> anonymizer \<Rightarrow> (exc + unit) \<times> anonymizer" where
  "cleanup pts0 s =
     (case or_paths pts0 s of
        PathList ps \<Rightarrow>
          (let pts = map (abspath (cwd s)) ps
           in for_each (\<lambda>p s. case exists_list s pts of
                                 Inl e \<Rightarrow> (Inl e, s)
                               | Inr found \<Rightarrow>
                                   if \<not> found then (Inl OSError, s) else remove_old p s)
                pts s)
      | PathStr p \<Rightarrow> remove_old p s
      | NotAPath \<Rightarrow> (Inl TypeError, s))"

subsection \<open>\<open>update_dict\<close>\<close>

text \<open>
  \<open>[x for x in os.listdir(pt) if os.path.isdir(x) and x not in self.dct.keys()]\<close>
\<close>

fun new_patients :: "anonymizer \<Rightarrow> string list \<Rightarrow> exc + string list" where
  "new_patients s [] = Inr []"
| "new_patients s (x # rest) =
     (if isdir s x
      then (case get_dct s of
              Inl e \<Rightarrow> Inl e
            | Inr d \<Rightarrow>
                (case new_patients s rest of
                   Inl e \<Rightarrow> Inl e
                 | Inr xs \<Rightarrow> Inr (if x \<in> set (map fst d) then xs else x # xs)))
      else new_patients s rest)"

text \<open>
  \<open>for pt in pts: if not os.path.exists(pt): raise OSError(...); os.chdir(pt);
  patients += [...]\<close>. The directory that was entered last stays the working directory.
\<close>

fun collect_patients ::
  "string list \<Rightarrow> string list \<Rightarrow> anonymizer \<Rightarrow> (exc + string list) \<times> anonymizer" where
  "collect_patients [] patients s = (Inr patients, s)"
| "collect_patients (pt # rest) patients s =
     (if \<not> exists s pt then (Inl OSError, s)
      else (case chdir pt s of
              (Inl e, s1) \<Rightarrow> (Inl e, s1)
            | (Inr u, s1) \<Rightarrow>
                (case listdir s1 pt of
                   Inl e \<Rightarrow> (Inl e, s1)
                 | Inr names \<Rightarrow>
                     (case new_patients s1 names of
                        Inl e \<Rightarrow> (Inl e, s1)
                      | Inr xs \<Rightarrow> collect_patients rest (patients @ xs) s1))))"

text \<open>
  The answer to \<open>Which patients do you want to add to the dictionary?\<close>: \<open>None\<close> stands for
  the \<open>return\<close> at the answer \<open>0\<close>. Any answer that is not made of numbers takes all.
\<close>

definition select_patients :: "string \<Rightarrow> string list \<Rightarrow> exc + string list option" where
  "select_patients key patients =
     (if isdigit key then
        (if int_of_digits key = 0 then Inr None
         else (case index patients (int (int_of_digits key) - 1) of
                 Inl e \<Rightarrow> Inl e
               | Inr x \<Rightarrow> Inr (Some [x])))
      else if (\<forall>x \<in> set (split_words [] key). isdigit x) \<and> key \<noteq> [] then
        (case index_each patients (map (\<lambda>i. int (int_of_digits i) - 1) (split_words [] key)) of
           Inl e \<Rightarrow> Inl e
         | Inr xs \<Rightarrow> Inr (Some xs))
      else Inr (Some patients))"

text \<open>
  \<open>last = len(self.dct.items()); ids = ['Subject' + str(x) for x in range(last + 1,
  last + len(patients) + 1)]; self.dct.update(zip(patients, ids))\<close>
\<close>

definition add_patients :: "string list \<Rightarrow> anonymizer \<Rightarrow> (exc + unit) \<times> anonymizer" where
  "add_patients patients s =
     (case get_dct s of
        Inl e \<Rightarrow> (Inl e, s)
      | Inr d \<Rightarrow>
          let last = length d;
              ids = map subject [last + 1 ..< last + length patients + 1]
          in (Inr (), s\<lparr>dct := Some (OrderedDict (dict_update (zip patients ids) d))\<rparr>))"

text \<open>
  \<open>update_dict(pts, no_check)\<close>. The list of the similar names is only printed and is left
  out.
\<close>

definition update_dict :: "pts \<Rightarrow> bool \<Rightarrow> anonymizer \<Rightarrow> (exc + unit) \<times> anonymizer" where
  "update_dict pts no_check0 s =
     (let no_check = (if yes_to_all s then True else no_check0)
      in case (case pts of PathStr p \<Rightarrow> Inr [p] | PathList ps \<Rightarrow> Inr ps
                         | NotAPath \<Rightarrow> Inl TypeError) of
           Inl e \<Rightarrow> (Inl e, s)
         | Inr pts' \<Rightarrow>
             (case collect_patients pts' [] s of
                (Inl e, s1) \<Rightarrow> (Inl e, s1)
              | (Inr patients, s1) \<Rightarrow>
                  if patients \<noteq> [] \<and> \<not> no_check then
                    (case input s1 of
                       (Inl e, s2) \<Rightarrow> (Inl e, s2)
                     | (Inr key, s2) \<Rightarrow>
                         (case select_patients key patients of
                            Inl e \<Rightarrow> (Inl e, s2)
                          | Inr None \<Rightarrow> (Inr (), s2)
                          | Inr (Some chosen) \<Rightarrow> add_patients chosen s2))
                  else add_patients patients s1))"

subsection \<open>\<open>create_anon_dict\<close>\<close>

text \<open>
  \<open>patients = [x for x in os.listdir(d) if os.path.isdir(x)]; ids = [...];
  self.dct = OrderedDict(zip(patients, ids))\<close>
\<close>

definition new_dict :: "string \<Rightarrow> anonymizer \<Rightarrow> (exc + unit) \<times> anonymizer" where
  "new_dict d s =
     (case listdir s d of
        Inl e \<Rightarrow> (Inl e, s)
      | Inr names \<Rightarrow>
          let patients = filter (isdir s) names;
              ids = map subject [1 ..< length patients + 1]
          in (Inr (), s\<lparr>dct := Some (OrderedDict (dict_update (zip patients ids) []))\<rparr>))"

definition create_anon_dict :: "pts \<Rightarrow> anonymizer \<Rightarrow> (exc + bool) \<times> anonymizer" where
  "create_anon_dict pts s =
     (let src_dir = cwd s
      in case pts of
           PathList ps \<Rightarrow>
             (case ps of
                [] \<Rightarrow> (Inl IndexError, s)
              | p # rest \<Rightarrow>
                  if \<not> exists s p then (Inl OSError, s)
                  else seq (chdir p) (\<lambda>u.
                       seq (new_dict ''.'') (\<lambda>u.
                       seq (chdir src_dir) (\<lambda>u.
                       seq (for_each (\<lambda>pt. update_dict (PathStr pt) True) rest) (\<lambda>u.
                       seq (chdir src_dir) (\<lambda>u. return True))))) s)
         | PathStr p \<Rightarrow>
             if exists s p then
               (if isdir s p then
                  seq (chdir p) (\<lambda>u.
                  seq (new_dict p) (\<lambda>u.
                  seq (chdir src_dir) (\<lambda>u. return True))) s
                else if contains ''dicomdir'' p then
                  seq (chdir (path_head p)) (\<lambda>u.
                  seq (new_dict (path_head p)) (\<lambda>u.
                  seq (chdir src_dir) (\<lambda>u. return True))) s
                else (Inr False, s))
             else (Inl OSError, s)
         | NotAPath \<Rightarrow> (Inl TypeError, s))"

subsection \<open>\<open>anonymize\<close>\<close>

text \<open>
  \<open>for d in dirs: if d in self.dct: if not self.only_dirs: self.anonymize_patient(d);
  os.rename(d, self.dct[d])\<close>
\<close>

definition anonymize_dir :: "string \<Rightarrow> anonymizer \<Rightarrow> (exc + unit) \<times> anonymizer" where
  "anonymize_dir d s =
     (case get_dct s of
        Inl e \<Rightarrow> (Inl e, s)
      | Inr items \<Rightarrow>
          (case map_of items d of
             None \<Rightarrow> (Inr (), s)
           | Some alias \<Rightarrow>
               seq (if \<not> only_dirs s then anonymize_patient d else return ())
                 (\<lambda>u. rename d alias) s))"

text \<open>\<open>os.chdir(p); dirs = os.listdir('.'); for d in dirs: ...\<close>\<close>

definition anonymize_in :: "string \<Rightarrow> anonymizer \<Rightarrow> (exc + unit) \<times> anonymizer" where
  "anonymize_in p =
     seq (chdir p) (\<lambda>u.
     seq (lift (\<lambda>s. listdir s ''.'')) (\<lambda>dirs. for_each anonymize_dir dirs))"

definition anonymize :: "pts option \<Rightarrow> anonymizer \<Rightarrow> (exc + bool) \<times> anonymizer" where
  "anonymize pts0 s =
     (case or_paths pts0 s of
        PathList ps \<Rightarrow>
          (let pts = map (abspath (cwd s)) ps
           in seq (for_each (\<lambda>p s. if \<not> exists s p then (Inl OSError, s) else anonymize_in p s)
                     pts) (\<lambda>u.
              seq (\<lambda>s. if \<not> only_dirs s then cleanup (Some (PathList pts)) s else (Inr (), s))
                (\<lambda>u. return True)) s)
      | PathStr p \<Rightarrow>
          if \<not> exists s p then (Inl OSError, s)
          else (case is_dicom s p of
                  Inl e \<Rightarrow> (Inl e, s)
                | Inr single_dicom \<Rightarrow>
                    let pts = (if \<not> single_dicom \<and> contains ''dicomdir'' p then path_head p
                               else p)
                    in seq (if single_dicom then anonymize_dicom p ''anonymous'' None
                            else return ()) (\<lambda>u.
                       seq (\<lambda>s. if isdir s pts then anonymize_in pts s else (Inr (), s)) (\<lambda>u.
                       seq (\<lambda>s. if \<not> only_dirs s then cleanup (Some (PathStr pts)) s
                                 else (Inr (), s))
                         (\<lambda>u. return (\<not> single_dicom)))) s)
      | NotAPath \<Rightarrow> (Inl TypeError, s))"

subsection \<open>\<open>create_patient_log\<close>\<close>

text \<open>\<open>s.find(sub)\<close> and \<open>s[i:]\<close>.\<close>

definition find :: "string \<Rightarrow> string \<Rightarrow> int" where
  "find s sub =
     (case filter (\<lambda>i. prefix sub (drop i s)) [0 ..< length s + 1] of
        [] \<Rightarrow> - 1
      | i # rest \<Rightarrow> int i)"

definition slice_from :: "string \<Rightarrow> int \<Rightarrow> string" where
  "slice_from s i = (if i < 0 then drop (nat (int (length s) + i)) s else drop (nat i) s)"

text \<open>
  \<open>for line in str(ds).split('\n'): if 'patient\'s name' in line.lower():
  patients_name = line[57:]\<close>
\<close>

fun patients_name_of :: "string list \<Rightarrow> string option \<Rightarrow> string option" where
  "patients_name_of [] found = found"
| "patients_name_of (line # rest) found =
     patients_name_of rest
       (if contains ''patient's name'' (lower line) then Some (drop 57 line) else found)"

fun log_dicomdirs :: "anonymizer \<Rightarrow> string list \<Rightarrow> (string \<times> string) list \<Rightarrow> exc + (string \<times> string) list" where
  "log_dicomdirs s [] lg = Inr lg"
| "log_dicomdirs s (d # rest) lg =
     (case lookup s (join d ''DICOMDIR'') of
        Some (File m (DicomDir printed)) \<Rightarrow>
          (let alias = hd (split_slash (slice_from d (find d ''Subject'')))
           in case patients_name_of printed None of
                None \<Rightarrow> log_dicomdirs s rest lg
              | Some patients_name \<Rightarrow>
                  log_dicomdirs s rest
                    (if patients_name \<noteq> [] then dict_set patients_name alias lg else lg))
      | Some (File m c) \<Rightarrow> Inl InvalidDicomError
      | _ \<Rightarrow> Inl IOError)"

definition create_patient_log :: "pts option \<Rightarrow> anonymizer \<Rightarrow> exc + (string \<times> string) list" where
  "create_patient_log pts0 s =
     (case find_dcmdir s (or_paths pts0 s) of
        Inl e \<Rightarrow> Inl e
      | Inr dcmdir_list \<Rightarrow> log_dicomdirs s dcmdir_list [])"

subsection \<open>The constructor\<close>

text \<open>The argument \<open>diction\<close>: nothing, an \<open>OrderedDict\<close>, or a path to a pickle.\<close>

datatype diction = NoDiction | DictionDict "(string \<times> string) list" | DictionPath string

text \<open>\<open>pkl.load(open(p, 'rb'))\<close>\<close>

definition pickle_load :: "'a os_state_scheme \<Rightarrow> string \<Rightarrow> exc + pyobj" where
  "pickle_load s p =
     (case lookup s p of
        Some (File m (Pickle obj)) \<Rightarrow> Inr obj
      | Some (File m c) \<Rightarrow> Inl UnpicklingError
      | _ \<Rightarrow> Inl IOError)"

text \<open>
  Reading the dictionary from the argument: \<open>if isinstance(diction, OrderedDict):
  self.dct = diction else: if not os.path.exists(diction): raise OSError(...); try:
  self.dct = pkl.load(open(diction, 'rb')) except: raise TypeError(...)\<close>.
\<close>

definition load_diction :: "diction \<Rightarrow> anonymizer \<Rightarrow> (exc + unit) \<times> anonymizer" where
  "load_diction dn s =
     (case dn of
        DictionDict d \<Rightarrow> (Inr (), s\<lparr>dct := Some (OrderedDict d)\<rparr>)
      | DictionPath p \<Rightarrow>
          if \<not> exists s p then (Inl OSError, s)
          else (case pickle_load s p of
                  Inl e \<Rightarrow> (Inl TypeError, s)
                | Inr obj \<Rightarrow> (Inr (), s\<lparr>dct := Some obj\<rparr>))
      | NoDiction \<Rightarrow> (Inr (), s))"

text \<open>
  \<open>if os.path.exists(p): check = input(...); if check.lower() in (...): self.dct =
  pkl.load(open(p, 'rb')); if check.lower() in ('yy', ...): self.yes_to_all = True\<close>
\<close>

definition offer_dictionary :: "string \<Rightarrow> anonymizer \<Rightarrow> (exc + unit) \<times> anonymizer" where
  "offer_dictionary p s =
     (if exists s p then
        seq input (\<lambda>check s1.
          seq (\<lambda>s. if lower check \<in> set ['''', ''y'', ''yes'', ''ok'', ''yy'', ''yes_to_all'', ''yes to all'']
                     then (case pickle_load s p of
                             Inl e \<Rightarrow> (Inl e, s)
                           | Inr obj \<Rightarrow> (Inr (), s\<lparr>dct := Some obj\<rparr>))
                     else (Inr (), s))
            (\<lambda>u s. (Inr (), if lower check \<in> set [''yy'', ''yes_to_all'', ''yes to all'']
                             then s\<lparr>yes_to_all := True\<rparr> else s)) s1) s
      else (Inr (), s))"

text \<open>\<open>not self.dct\<close>\<close>

definition no_dct :: "anonymizer \<Rightarrow> bool" where
  "no_dct s = (case dct s of None \<Rightarrow> True | Some (OrderedDict d) \<Rightarrow> d = []
               | Some (OtherObject truth) \<Rightarrow> \<not> truth)"

text \<open>
  The part of the constructor that settles the dictionary (\<open># read dictionary\<close> to
  \<open>self.update_dict(self.paths)\<close>).
\<close>

definition resolve_dictionary :: "diction \<Rightarrow> anonymizer \<Rightarrow> (exc + unit) \<times> anonymizer" where
  "resolve_dictionary dn =
     seq (if dn \<noteq> NoDiction \<and> dn \<noteq> DictionDict [] \<and> dn \<noteq> DictionPath []
          then seq (load_diction dn) (\<lambda>u. return False)
          else seq (offer_dictionary ''anonymizer_dictionary.pkl'') (\<lambda>u.
               seq (offer_dictionary ''logs/anonymizer_dictionary.pkl'') (\<lambda>u s.
                 if no_dct s
                 then seq (create_anon_dict (paths s))
                        (\<lambda>created. if \<not> created then raise SystemExit else return created) s
                 else (Inr False, s))))
       (\<lambda>created s.
          if \<not> created then
            (case dct s of
               Some (OrderedDict d) \<Rightarrow>
                 update_dict (paths s) False (s\<lparr>previous_entries := length d\<rparr>)
             | _ \<Rightarrow> (Inl TypeError, s))
          else (Inr (), s))"

text \<open>
  The confirmation of the run: \<open>if self.yes_to_all: run = True else: check = input(...) ...\<close>
\<close>

definition confirm_run :: "anonymizer \<Rightarrow> (exc + bool) \<times> anonymizer" where
  "confirm_run s =
     (if yes_to_all s then (Inr True, s)
      else seq input (\<lambda>check s.
             if filter (\<lambda>c. c \<noteq> CHR '' '') (lower check) \<in> set [''yy'', ''yes_to_all'', ''yestoall'']
             then (Inr True, s\<lparr>yes_to_all := True\<rparr>)
             else (Inr (lower check \<in> set ['''', ''true'', ''t'', ''y'', ''yes'', ''proceed'']), s)) s)"

text \<open>\<open>pkl.dump(self.dct, open('anonymizer_dictionary.pkl', 'wb'))\<close>\<close>

definition save_dictionary :: "anonymizer \<Rightarrow> (exc + unit) \<times> anonymizer" where
  "save_dictionary s =
     write_file ''anonymizer_dictionary.pkl'' ''data''
       (Pickle (case dct s of Some obj \<Rightarrow> obj | None \<Rightarrow> OtherObject False)) s"

text \<open>The report and the logs that follow a run that went through.\<close>

definition write_logs :: "anonymizer \<Rightarrow> (exc + unit) \<times> anonymizer" where
  "write_logs s =
     (case log_dir s of
        None \<Rightarrow> (Inl AttributeError, s)
      | Some file_dir \<Rightarrow>
          seq (if \<not> isdir s file_dir then mkdir file_dir else return ()) (\<lambda>u.
          seq (chdir file_dir) (\<lambda>u.
          seq (\<lambda>s. if only_dirs s
                    then (case create_patient_log None s of
                            Inl e \<Rightarrow> (Inl e, s)
                          | Inr lg \<Rightarrow> (Inr (), s\<lparr>log_dict := lg\<rparr>))
                    else (Inr (), s)) (\<lambda>u.
          seq (\<lambda>s. case get_dct s of
                      Inl e \<Rightarrow> (Inl e, s)
                    | Inr d \<Rightarrow>
                        write_file ''patient aliases.txt'' ''ASCII text''
                          (Text (log_line ''Patient Name'' ''Patient Alias''
                                 # map (\<lambda>(key, val). log_line key val) d)) s) (\<lambda>u.
          seq (\<lambda>s. if failed s \<noteq> []
                    then write_file ''failed dicom.txt'' ''ASCII text''
                           (Text (map (\<lambda>x. x @ [CHR 0x0A]) (failed s))) s
                    else (Inr (), s)) (\<lambda>u.
          seq (\<lambda>s. if log' s
                    then write_file ''patient log.txt'' ''ASCII text''
                           (Text (log_line ''Patient Name'' ''Patient Alias''
                                  # map (\<lambda>(key, val). log_line key val) (log_dict s))) s
                    else (Inr (), s)) (\<lambda>u.
          save_dictionary)))))) s)"

text \<open>\<open>self.paths\<close>: \<open>if not paths: paths = '.'\<close>, then the absolute paths.\<close>

definition init_paths :: "string \<Rightarrow> pts option \<Rightarrow> exc + pts" where
  "init_paths curr_dir paths0 =
     (case paths0 of
        None \<Rightarrow> Inr (PathStr (abspath curr_dir ''.''))
      | Some (PathStr p) \<Rightarrow> Inr (PathStr (abspath curr_dir (if p = [] then ''.'' else p)))
      | Some (PathList ps) \<Rightarrow>
          Inr (if ps = [] then PathStr (abspath curr_dir ''.'') else PathList (map (abspath curr_dir) ps))
      | Some NotAPath \<Rightarrow> Inl AttributeError)"

text \<open>
  Everything between \<open>curr = os.getcwd()\<close> and \<open>os.chdir(curr)\<close>.
\<close>

definition init_body :: "diction \<Rightarrow> bool \<Rightarrow> anonymizer \<Rightarrow> (exc + unit) \<times> anonymizer" where
  "init_body dn run =
     seq (resolve_dictionary dn) (\<lambda>u.
     seq (if run then confirm_run else return False) (\<lambda>run'.
       if run' then seq (anonymize None) (\<lambda>proceed. if proceed then write_logs else return ())
       else return ()))"

text \<open>
  \<open>Anonymizer(paths, diction, verbose, only_dirs, similarity_check, run, log, log_dir,
  yes_to_all)\<close> in the process \<open>os\<close>. The object is the state that is returned with
  \<open>Inr\<close>; with \<open>Inl\<close> the constructor raised and the state is what the process was left
  in.
\<close>

definition init ::
  "pts option \<Rightarrow> diction \<Rightarrow> bool \<Rightarrow> bool \<Rightarrow> bool \<Rightarrow> bool \<Rightarrow> bool \<Rightarrow> string option \<Rightarrow> bool
   \<Rightarrow> os_state \<Rightarrow> (exc + unit) \<times> anonymizer" where
  "init paths0 dn verbose0 only_dirs0 similarity_check run log0 log_dir0 yes_to_all0 os =
     (let self = \<lparr>cwd = cwd os, fs = fs os, inputs = inputs os,
                  paths = PathStr [], verbose = verbose0, similar = similarity_check,
                  only_dirs = only_dirs0, log' = log0, dct = None, failed = [],
                  attempted = 0, processed = 0, previous_entries = 0,
                  yes_to_all = yes_to_all0, threshold = 7 / 10,
                  log_dir = (case log_dir0 of
                               None \<Rightarrow> None
                             | Some d \<Rightarrow> if d = [] then None else Some (abspath (cwd os) d)),
                  log_dict = []\<rparr>
      in case init_paths (cwd os) paths0 of
           Inl e \<Rightarrow> (Inl e, self)
         | Inr ps \<Rightarrow>
             (let curr_dir = cwd os
              in seq (init_body dn run) (\<lambda>u. chdir curr_dir) (self\<lparr>paths := ps\<rparr>)))"

section \<open>converter.py: the constructor of \<open>Converter\<close>\<close>

record converter = os_state +
  cv_log :: "string list"
  cv_dir_path :: string
  cv_log_dir :: string
  cv_verbose :: bool
  cv_cleanup :: bool
  cv_compressed :: "string list"
  cv_successful :: nat
  cv_failed :: nat
  cv_frames :: nat
  cv_removed :: nat
  cv_yes_to_all :: bool

text \<open>
  The conversion itself is the work of the codec; \<open>to_png\<close> and \<open>convert_all\<close> are
  parameters, any two methods on the object.
\<close>

definition converter_init ::
  "(string \<Rightarrow> bool \<Rightarrow> converter \<Rightarrow> (exc + unit) \<times> converter)
   \<Rightarrow> (converter \<Rightarrow> (exc + unit) \<times> converter)
   \<Rightarrow> string \<Rightarrow> bool \<Rightarrow> string option \<Rightarrow> bool \<Rightarrow> bool \<Rightarrow> bool \<Rightarrow> bool
   \<Rightarrow> os_state \<Rightarrow> (exc + unit) \<times> converter" where
  "converter_init to_png convert_all dicom_root_path run log_dir0 verbose0 cleanup0 yes_to_all0
     same_name os =
     (let curr_dir = cwd os;
          dir_path = abspath (cwd os) dicom_root_path;
          self = \<lparr>cwd = cwd os, fs = fs os, inputs = inputs os,
                  cv_log = [], cv_dir_path = dir_path,
                  cv_log_dir = (case log_dir0 of
                                  None \<Rightarrow> dir_path
                                | Some d \<Rightarrow> if d = [] then dir_path else abspath (cwd os) d),
                  cv_verbose = verbose0, cv_cleanup = cleanup0, cv_compressed = [],
                  cv_successful = 0, cv_failed = 0, cv_frames = 0, cv_removed = 0,
                  cv_yes_to_all = yes_to_all0\<rparr>
      in seq (if run
              then seq (lift (\<lambda>s. is_dicom s dicom_root_path)) (\<lambda>single.
                     if single
                     then seq (chdir (path_head dicom_root_path))
                            (\<lambda>u. to_png dicom_root_path same_name)
                     else convert_all)
              else return ())
           (\<lambda>u. chdir curr_dir) self)"

section \<open>A patient directory with two images\<close>

text \<open>
  The directory \<open>/data\<close> holds the directory of the patient John Doe with two DICOM images
  that carry the name; \<open>save_raises\<close> tells whether saving the first image raises a
  \<open>ValueError\<close>. The object below is what the constructor leaves for
  \<open>Anonymizer(paths='/data', only_dirs=False)\<close> in the working directory \<open>/data\<close>: the
  paths, the dictionary created from the directory names, and the string comparison
  switched on.
\<close>

definition john_doe :: "bool \<Rightarrow> (string \<times> node) list" where
  "john_doe save_raises =
     [(''/'', Dir), (''/data'', Dir), (''/data/John Doe'', Dir),
      (''/data/John Doe/img1'',
         File ''DICOM medical imaging data'' (Dataset (Some ''John Doe'') save_raises)),
      (''/data/John Doe/img2'', File ''DICOM medical imaging data'' (Dataset (Some ''John Doe'') False))]"

definition anon :: "(string \<times> node) list \<Rightarrow> bool \<Rightarrow> anonymizer" where
  "anon files similarity_check =
     \<lparr>cwd = ''/data'', fs = files, inputs = [],
      paths = PathStr ''/data'', verbose = False, similar = similarity_check,
      only_dirs = False, log' = True,
      dct = Some (OrderedDict [(''John Doe'', ''Subject1'')]), failed = [],
      attempted = 0, processed = 0, previous_entries = 0, yes_to_all = False,
      threshold = 7 / 10, log_dir = Some ''/data/logs'', log_dict = []\<rparr>"

section \<open>Depth classification\<close>

lemma average_depth_nonempty:
  assumes "pop \<noteq> []" and "\<And>d. relpath (relpath d) = relpath d"
  shows "average_depth relpath pop True =
           Inr (of_nat (sum_list (map (\<lambda>d. count_slash (relpath d)) pop))
                  / of_nat (length pop))"
  using assms by (simp add: average_depth_def comp_def)

text \<open>
  C3, the claim as stated fails: for paths at depths 2, 2, 2 and 5 the average 11/4 rounds
  to 3, so the three paths at depth 2 are flagged together with the path at depth 5.
\<close>

theorem wrong_depth_2225_counterexample:
  "map count_slash [''PD/a/p1'', ''PD/a/p2'', ''PD/a/p3'', ''PD/a/b/c/d/p4''] = [2, 2, 2, 5]
   \<and> wrong_depth (\<lambda>p. p) [''PD/a/p1'', ''PD/a/p2'', ''PD/a/p3'', ''PD/a/b/c/d/p4'']
       = Inr [''PD/a/p1'', ''PD/a/p2'', ''PD/a/p3'', ''PD/a/b/c/d/p4'']
   \<and> wrong_depth (\<lambda>p. p) [''PD/a/p1'', ''PD/a/p2'', ''PD/a/p3'', ''PD/a/b/c/d/p4'']
       \<noteq> Inr [''PD/a/b/c/d/p4'']"
  by code_simp

text \<open>
  C3, amended: for a non-empty population, the paths flagged wrong-depth are exactly the
  paths of the population, in order, whose relative depth differs from the rounded average
  depth of the whole population (\<open>relpath\<close> leaves a relative path as it is).
\<close>

theorem wrong_depth_iff_differs_from_rounded_average:
  assumes "pop \<noteq> []" and "\<And>d. relpath (relpath d) = relpath d"
  shows "wrong_depth relpath pop =
           Inr (filter (\<lambda>d. of_nat (count_slash (relpath d)) \<noteq>
                   py_round (of_nat (sum_list (map (\<lambda>d. count_slash (relpath d)) pop))
                              / of_nat (length pop)))
                 pop)"
  using average_depth_nonempty [OF assms]
  by (simp add: wrong_depth_def check_depth_def)

theorem wrong_depth_iff_differs_from_rounded_average_witness:
  "[''PD/a/p1'', ''PD/a/p2'', ''PD/a/p3'', ''PD/a/b/p4''] \<noteq> []
   \<and> wrong_depth (\<lambda>p. p) [''PD/a/p1'', ''PD/a/p2'', ''PD/a/p3'', ''PD/a/b/p4'']
       = Inr [''PD/a/b/p4'']"
proof -
  let ?pop = "[''PD/a/p1'', ''PD/a/p2'', ''PD/a/p3'', ''PD/a/b/p4'']"
  have ne: "?pop \<noteq> []" by simp
  have f: "filter (\<lambda>d. of_nat (count_slash d) \<noteq>
                   py_round (of_nat (sum_list (map (\<lambda>d. count_slash d) ?pop))
                              / of_nat (length ?pop))) ?pop = [''PD/a/b/p4'']"
    by code_simp
  from wrong_depth_iff_differs_from_rounded_average [of ?pop "\<lambda>p. p", OF ne]
  show ?thesis unfolding f by simp
qed

section \<open>Marker-count classification\<close>






section \<open>Anonymizing the conversion log\<close>

lemma length_anonymize_lines: "length (anonymize_lines d e ls) = length ls"
  by (induction ls arbitrary: e) (auto simp: Let_def)

lemma replace_names_no_match:
  "\<forall>(name, alias) \<in> set d. \<not> contains name line \<Longrightarrow>
     replace_names d (line, e) = (line, e)"
  by (induction d) auto

lemma replace_names_match:
  "\<exists>(name, alias) \<in> set d. contains name line \<Longrightarrow> snd (replace_names d (line, e)) = False"
proof (induction d arbitrary: line e)
  case Nil
  then show ?case by simp
next
  case (Cons p d)
  obtain name al where p: "p = (name, al)" by (cases p)
  show ?case
  proof (cases "contains name line")
    case True
    have "snd (replace_names d (l, False)) = False" for l
    proof (induction d arbitrary: l)
      case Nil
      then show ?case by simp
    next
      case (Cons q d)
      then show ?case by (cases q) auto
    qed
    with True p show ?thesis by simp
  next
    case False
    with Cons.prems p have "\<exists>(name, alias) \<in> set d. contains name line" by auto
    from Cons.IH [OF this] False p show ?thesis by simp
  qed
qed

lemma anonymize_lines_unmatched:
  "i < length ls \<Longrightarrow> \<forall>(name, alias) \<in> set d. \<not> contains name (ls ! i) \<Longrightarrow>
     anonymize_lines d e ls ! i = ls ! i"
proof (induction ls arbitrary: e i)
  case Nil
  then show ?case by simp
next
  case (Cons l ls)
  show ?case
  proof (cases i)
    case 0
    with Cons.prems show ?thesis by (simp add: Let_def replace_names_no_match)
  next
    case (Suc j)
    with Cons show ?thesis by (simp add: Let_def)
  qed
qed

lemma anonymize_lines_before_sentinel:
  "\<forall>l \<in> set A. \<not> contains ''PATIENT INFO'' l \<Longrightarrow>
     anonymize_lines d False (A @ rest) = A @ anonymize_lines d False rest"
  by (induction A) (auto simp: Let_def)

lemma anonymize_lines_after_match:
  assumes "contains ''PATIENT INFO'' l \<or> e"
      and "\<exists>(name, alias) \<in> set d. contains name l"
      and "\<forall>l' \<in> set B. \<not> contains ''PATIENT INFO'' l'"
  shows "anonymize_lines d e (l # B @ rest) =
           fst (replace_names d (l, True)) # B @ anonymize_lines d False rest"
  using assms replace_names_match [OF assms(2), of True]
  by (auto simp: Let_def anonymize_lines_before_sentinel)

lemma replace_names_foldl:
  "fst (replace_names d (line, e))
     = foldl (\<lambda>line (name, alias). if contains name line then replace (butlast name) alias line
                                   else line) line d"
proof (induction d arbitrary: line e)
  case Nil
  show ?case by simp
next
  case (Cons p d)
  obtain name al where p: "p = (name, al)" by (cases p)
  show ?case by (simp add: p Cons.IH)
qed

lemma replace_names_single:
  assumes "distinct (map fst d)" and "(name, al) \<in> set d" and "contains name line"
    and "\<forall>(other, a) \<in> set d. other \<noteq> name \<longrightarrow>
            \<not> contains other line \<and> \<not> contains other (replace (butlast name) al line)"
  shows "fst (replace_names d (line, e)) = replace (butlast name) al line"
  using assms
proof (induction d arbitrary: e)
  case Nil
  then show ?case by simp
next
  case (Cons p d)
  obtain n a where p: "p = (n, a)" by (cases p)
  show ?case
  proof (cases "n = name")
    case True
    with Cons.prems(1,2) p have a: "a = al" by (auto simp: rev_image_eqI)
    from Cons.prems(1) p True have "\<forall>(other, a') \<in> set d. other \<noteq> name"
      by (auto simp: rev_image_eqI)
    with Cons.prems(4)
    have "\<forall>(other, a') \<in> set d. \<not> contains other (replace (butlast name) al line)"
      by auto
    from replace_names_no_match [OF this] Cons.prems(3) p True a show ?thesis by simp
  next
    case False
    with Cons.prems(2) p have m: "(name, al) \<in> set d" by auto
    from Cons.prems(1) have dd: "distinct (map fst d)" by simp
    from Cons.prems(4) have r: "\<forall>(other, a) \<in> set d. other \<noteq> name \<longrightarrow>
            \<not> contains other line \<and> \<not> contains other (replace (butlast name) al line)"
      by simp
    from Cons.prems(4) p False have "\<not> contains n line" by simp
    with Cons.IH [OF dd m Cons.prems(3) r] p show ?thesis by simp
  qed
qed

lemma anonymize_lines_waiting:
  assumes "contains ''PATIENT INFO'' l \<or> e"
      and "\<forall>(name, alias) \<in> set d. \<not> contains name l"
  shows "anonymize_lines d e (l # rest) = l # anonymize_lines d True rest"
  using assms by (auto simp: Let_def replace_names_no_match)

text \<open>
  C5, the claim as stated fails: with the known name \<open>John Doe\<close> twice in the line after
  the sentinel, the method replaces both occurrences, and what it replaces is the name
  without its last character, so that an \<open>e\<close> stays behind each alias. The claim's text
  has one substitution of the whole name.
\<close>

theorem anonymize_lines_counterexample:
  "anonymize_lines [(''John Doe'', ''Subject1'')] False
       [''PATIENT INFO'' @ [CHR 0x0A], ''Name: John Doe, born John Doe'' @ [CHR 0x0A]]
     = [''PATIENT INFO'' @ [CHR 0x0A], ''Name: Subject1e, born Subject1e'' @ [CHR 0x0A]]
   \<and> spec_anonymize_lines [(''John Doe'', ''Subject1'')] False
       [''PATIENT INFO'' @ [CHR 0x0A], ''Name: John Doe, born John Doe'' @ [CHR 0x0A]]
     = [''PATIENT INFO'' @ [CHR 0x0A], ''Name: Subject1, born John Doe'' @ [CHR 0x0A]]
   \<and> anonymize_lines [(''John Doe'', ''Subject1'')] False
       [''PATIENT INFO'' @ [CHR 0x0A], ''Name: John Doe, born John Doe'' @ [CHR 0x0A]]
     \<noteq> spec_anonymize_lines [(''John Doe'', ''Subject1'')] False
       [''PATIENT INFO'' @ [CHR 0x0A], ''Name: John Doe, born John Doe'' @ [CHR 0x0A]]"
  by code_simp

text \<open>
  C5, amended: when both logs exist, \<open>anonymize_log\<close> writes an output log of as many
  lines as the conversion log, in which at most one line of each block is rewritten: the
  first line, from the sentinel line on, that contains a known name. The lines before the
  first sentinel, every line that contains no known name (the search of the block goes on
  after it), and the lines after the rewritten line up to the next sentinel are written
  unchanged. For the rewritten line the known names are gone through in the order of
  \<open>pat_dct.keys()\<close>, and for each name that the line, as the names before left it, contains,
  every occurrence of the name without its last character is replaced by the alias. When
  one known name is in the line, and no other known name is in the line or in its
  rewriting, the line written is \<open>line.replace(name[:-1], alias)\<close> whatever the order. All
  of this holds for every order \<open>hash_order\<close> of the dictionary.
\<close>

theorem anonymize_log_rewrites_one_line_per_block:
  assumes "files conv_log = Some conv_lines" and "files patient_log = Some patient_lines"
  defines "d \<equiv> read_patient_log patient_lines []"
  assumes "set (hash_order d) = set d" and "distinct (map fst (hash_order d))"
  defines "pat_dct \<equiv> hash_order d"
  defines "out \<equiv> take (length conv_log - 4) conv_log @ ''_anon.txt''"
  defines "rewrite \<equiv> foldl (\<lambda>line (name, alias).
      if contains name line then replace (butlast name) alias line else line)"
  shows "anonymize_log hash_order files conv_log patient_log
           = Inr (files(out \<mapsto> anonymize_lines pat_dct False conv_lines))
       \<and> length (anonymize_lines pat_dct False conv_lines) = length conv_lines
       \<and> (\<forall>i < length conv_lines.
             (\<forall>(name, alias) \<in> set d. \<not> contains name (conv_lines ! i)) \<longrightarrow>
             anonymize_lines pat_dct False conv_lines ! i = conv_lines ! i)
       \<and> (\<forall>A rest. (\<forall>l \<in> set A. \<not> contains ''PATIENT INFO'' l) \<longrightarrow>
             anonymize_lines pat_dct False (A @ rest) = A @ anonymize_lines pat_dct False rest)
       \<and> (\<forall>e l rest.
             (contains ''PATIENT INFO'' l \<or> e) \<and>
             (\<forall>(name, alias) \<in> set d. \<not> contains name l) \<longrightarrow>
             anonymize_lines pat_dct e (l # rest) = l # anonymize_lines pat_dct True rest)
       \<and> (\<forall>e l B rest.
             (contains ''PATIENT INFO'' l \<or> e) \<and>
             (\<exists>(name, alias) \<in> set d. contains name l) \<and>
             (\<forall>l' \<in> set B. \<not> contains ''PATIENT INFO'' l') \<longrightarrow>
             anonymize_lines pat_dct e (l # B @ rest)
               = rewrite l pat_dct # B @ anonymize_lines pat_dct False rest)
       \<and> (\<forall>l name alias.
             (name, alias) \<in> set d \<and> contains name l \<and>
             (\<forall>(other, a) \<in> set d. other \<noteq> name \<longrightarrow>
                \<not> contains other l \<and> \<not> contains other (replace (butlast name) alias l)) \<longrightarrow>
             rewrite l pat_dct = replace (butlast name) alias l)"
proof -
  have s: "set pat_dct = set d" and dd: "distinct (map fst pat_dct)"
    using assms(4,5) by (simp_all add: pat_dct_def)
  have r: "rewrite l pat_dct = fst (replace_names pat_dct (l, e))" for l e
    by (simp add: rewrite_def replace_names_foldl)
  have 1: "anonymize_log hash_order files conv_log patient_log
             = Inr (files(out \<mapsto> anonymize_lines pat_dct False conv_lines))"
    using assms(1,2) by (simp add: anonymize_log_def d_def pat_dct_def out_def Let_def)
  have 2: "length (anonymize_lines pat_dct False conv_lines) = length conv_lines"
    by (rule length_anonymize_lines)
  have 3: "\<forall>i < length conv_lines.
             (\<forall>(name, alias) \<in> set d. \<not> contains name (conv_lines ! i)) \<longrightarrow>
             anonymize_lines pat_dct False conv_lines ! i = conv_lines ! i"
    using anonymize_lines_unmatched [of _ conv_lines pat_dct False] unfolding s by blast
  have 4: "\<forall>A rest. (\<forall>l \<in> set A. \<not> contains ''PATIENT INFO'' l) \<longrightarrow>
             anonymize_lines pat_dct False (A @ rest) = A @ anonymize_lines pat_dct False rest"
    using anonymize_lines_before_sentinel by blast
  have 5: "\<forall>e l rest.
             (contains ''PATIENT INFO'' l \<or> e) \<and>
             (\<forall>(name, alias) \<in> set d. \<not> contains name l) \<longrightarrow>
             anonymize_lines pat_dct e (l # rest) = l # anonymize_lines pat_dct True rest"
    using anonymize_lines_waiting [of _ _ pat_dct] unfolding s by blast
  have 6: "\<forall>e l B rest.
             (contains ''PATIENT INFO'' l \<or> e) \<and>
             (\<exists>(name, alias) \<in> set d. contains name l) \<and>
             (\<forall>l' \<in> set B. \<not> contains ''PATIENT INFO'' l') \<longrightarrow>
             anonymize_lines pat_dct e (l # B @ rest)
               = rewrite l pat_dct # B @ anonymize_lines pat_dct False rest"
    using anonymize_lines_after_match [of _ _ pat_dct] unfolding s r [of _ True] by blast
  have 7: "\<forall>l name alias.
             (name, alias) \<in> set d \<and> contains name l \<and>
             (\<forall>(other, a) \<in> set d. other \<noteq> name \<longrightarrow>
                \<not> contains other l \<and> \<not> contains other (replace (butlast name) alias l)) \<longrightarrow>
             rewrite l pat_dct = replace (butlast name) alias l"
    using replace_names_single [OF dd, of _ _ _ True] unfolding s r [of _ True] by blast
  from 1 2 3 4 5 6 7 show ?thesis by (intro conjI)
qed

text \<open>
  A patient log with the names \<open>John Doe\<close> and \<open>John Doe Jr\<close>, which the dictionary has
  with its header entry in the order \<open>Patient Name\<close>, \<open>John Doe Jr\<close>, \<open>John Doe\<close>.
\<close>

theorem anonymize_log_rewrites_one_line_per_block_witness:
  "anonymize_log (\<lambda>d. [d ! 0, d ! 2, d ! 1])
       [''conversion log.txt'' \<mapsto>
          [''PATIENT INFO'' @ [CHR 0x0A], ''Name: John Doe Jr'' @ [CHR 0x0A],
           ''Referred by John Doe'' @ [CHR 0x0A]],
        ''patient log.txt'' \<mapsto>
          [''Patient Name                            Patient Alias'' @ [CHR 0x0A],
           ''John Doe                                Subject1'' @ [CHR 0x0A],
           ''John Doe Jr                             Subject2'' @ [CHR 0x0A]]]
       ''conversion log.txt'' ''patient log.txt''
     = Inr ([''conversion log.txt'' \<mapsto>
          [''PATIENT INFO'' @ [CHR 0x0A], ''Name: John Doe Jr'' @ [CHR 0x0A],
           ''Referred by John Doe'' @ [CHR 0x0A]],
        ''patient log.txt'' \<mapsto>
          [''Patient Name                            Patient Alias'' @ [CHR 0x0A],
           ''John Doe                                Subject1'' @ [CHR 0x0A],
           ''John Doe Jr                             Subject2'' @ [CHR 0x0A]],
        ''conversion log_anon.txt'' \<mapsto>
          [''PATIENT INFO'' @ [CHR 0x0A], ''Name: Subject2r'' @ [CHR 0x0A],
           ''Referred by John Doe'' @ [CHR 0x0A]]])"
proof -
  let ?L = "[''PATIENT INFO'' @ [CHR 0x0A], ''Name: John Doe Jr'' @ [CHR 0x0A],
           ''Referred by John Doe'' @ [CHR 0x0A]]"
  let ?P = "[''Patient Name                            Patient Alias'' @ [CHR 0x0A],
           ''John Doe                                Subject1'' @ [CHR 0x0A],
           ''John Doe Jr                             Subject2'' @ [CHR 0x0A]]"
  let ?files = "[''conversion log.txt'' \<mapsto> ?L, ''patient log.txt'' \<mapsto> ?P]"
  let ?h = "\<lambda>d :: (string \<times> string) list. [d ! 0, d ! 2, d ! 1]"
  have c: "?files ''conversion log.txt'' = Some ?L" by simp
  have p: "?files ''patient log.txt'' = Some ?P" by simp
  have d: "read_patient_log ?P []
      = [(''Patient Name'', ''Patient Alias''), (''John Doe'', ''Subject1''),
         (''John Doe Jr'', ''Subject2'')]"
    by code_simp
  have h1: "set (?h (read_patient_log ?P [])) = set (read_patient_log ?P [])"
    unfolding d by auto
  have h2: "distinct (map fst (?h (read_patient_log ?P [])))"
    unfolding d by simp
  have o: "take (length ''conversion log.txt'' - 4) ''conversion log.txt'' @ ''_anon.txt''
             = ''conversion log_anon.txt''"
    by code_simp
  have a: "anonymize_lines
             (?h [(''Patient Name'', ''Patient Alias''), (''John Doe'', ''Subject1''),
                  (''John Doe Jr'', ''Subject2'')]) False ?L
             = [''PATIENT INFO'' @ [CHR 0x0A], ''Name: Subject2r'' @ [CHR 0x0A],
           ''Referred by John Doe'' @ [CHR 0x0A]]"
    by code_simp
  from anonymize_log_rewrites_one_line_per_block
         [where files = ?files and conv_log = "''conversion log.txt''" and conv_lines = ?L
            and patient_log = "''patient log.txt''" and patient_lines = ?P
            and hash_order = ?h, OF c p h1 h2, THEN conjunct1]
  have "anonymize_log ?h ?files ''conversion log.txt'' ''patient log.txt''
          = Inr (?files(take (length ''conversion log.txt'' - 4) ''conversion log.txt'' @ ''_anon.txt''
                   \<mapsto> anonymize_lines (?h (read_patient_log ?P [])) False ?L))" .
  then show ?thesis unfolding d o a .
qed

section \<open>The string comparison of \<open>anonymize_dicom\<close>\<close>

lemma lookup_attempted [simp]: "lookup (s\<lparr>attempted := n\<rparr>) p = lookup s p"
  by (simp add: lookup_def)

lemma compare_names_attempted [simp]:
  "compare_names (s\<lparr>attempted := n\<rparr>) name original = compare_names s name original"
  by (simp add: compare_names_def split: option.splits)

lemma save_never_TypeError:
  "fst (seq (write_file p m c) (\<lambda>u. log_saved old alias) s) \<noteq> Inl TypeError"
  by (auto simp: seq_def write_file_def log_saved_def Let_def
           split: prod.splits sum.splits option.splits if_splits)

lemma compare_names_similar:
  assumes "similar s" and "original \<noteq> []"
  shows "compare_names s (Some name) (Some original) =
           (if ratio (lower name) (lower original) > threshold s then Inl TypeError else Inr ())"
  using assms by (simp add: compare_names_def)

text \<open>
  C1: with the string comparison switched on and an original name given, the method
  raises the \<open>TypeError\<close> of the failed comparison exactly when the ratio of the two names
  is above the threshold. The claim has it the other way round, and so has the message
  of the exception (\<open>String compare failed, distance ... < threshold\<close>).
\<close>

theorem anonymize_dicom_raises_iff_above_threshold:
  assumes "lookup s dcm = Some (File m (Dataset (Some name) save_raises))"
      and "similar s" and "original \<noteq> []"
  shows "fst (anonymize_dicom dcm alias (Some original) s) = Inl TypeError
           \<longleftrightarrow> ratio (lower name) (lower original) > threshold s"
proof (cases "ratio (lower name) (lower original) > threshold s")
  case True
  with assms show ?thesis
    by (simp add: anonymize_dicom_def Let_def compare_names_similar)
next
  case False
  show ?thesis
  proof (cases save_raises)
    case True
    with False assms show ?thesis
      by (simp add: anonymize_dicom_def Let_def compare_names_similar)
  next
    case sr: False
    with False assms save_never_TypeError show ?thesis
      by (simp add: anonymize_dicom_def Let_def compare_names_similar)
  qed
qed

theorem anonymize_dicom_raises_iff_above_threshold_witness:
  "fst (anonymize_dicom ''/data/John Doe/img1'' ''Subject1'' (Some ''Jon Doe'') (anon (john_doe False) True))
     = Inl TypeError"
proof -
  have l: "lookup (anon (john_doe False) True) ''/data/John Doe/img1''
             = Some (File ''DICOM medical imaging data'' (Dataset (Some ''John Doe'') False))"
    by code_simp
  have s: "similar (anon (john_doe False) True)" by code_simp
  have n: "''Jon Doe'' \<noteq> []" by simp
  have r: "ratio (lower ''John Doe'') (lower ''Jon Doe'') > threshold (anon (john_doe False) True)"
    by code_simp
  from anonymize_dicom_raises_iff_above_threshold
         [of "anon (john_doe False) True" "''/data/John Doe/img1''" "''DICOM medical imaging data''"
             "''John Doe''" False "''Jon Doe''" "''Subject1''", OF l s n] r
  show ?thesis by simp
qed

section \<open>The images of one patient\<close>

lemma anonymize_dicom_save_error:
  assumes "lookup s dcm = Some (File m (Dataset (Some old) True))"
      and "compare_names s (Some old) original = Inr ()"
  shows "anonymize_dicom dcm alias original s
           = (Inr (), s\<lparr>attempted := attempted s + 1, failed := failed s @ [dcm]\<rparr>)"
  using assms by (simp add: anonymize_dicom_def Let_def)

lemma anonymize_dicom_similar_raises:
  assumes "lookup s dcm = Some (File m (Dataset (Some old) save_raises))"
      and "similar s" and "original \<noteq> []"
      and "ratio (lower old) (lower original) > threshold s"
  shows "anonymize_dicom dcm alias (Some original) s
           = (Inl TypeError, s\<lparr>attempted := attempted s + 1\<rparr>)"
  using assms by (simp add: anonymize_dicom_def Let_def compare_names_similar)

lemma anonymize_patient_loop:
  assumes "dct s = Some (OrderedDict d)" and "map_of d name = Some alias"
      and "CHR ''/'' \<notin> set name" and "find_dcm s (PathStr name) = Inr ls"
  shows "anonymize_patient name s
           = for_each (\<lambda>x. anonymize_dicom x alias (if similar s then Some name else None)) ls s"
  using assms by (simp add: anonymize_patient_def get_dct_def Let_def)

text \<open>
  C2, the claim as stated fails: the two images of John Doe carry his name, the string
  comparison raises its \<open>TypeError\<close> at the first one, and the exception leaves
  \<open>anonymize_patient\<close>: the failure list stays empty and the second image is never
  attempted.
\<close>

theorem anonymize_patient_counterexample:
  "find_dcm (anon (john_doe False) True) (PathStr ''John Doe'')
     = Inr [''/data/John Doe/img1'', ''/data/John Doe/img2'']
   \<and> anonymize_patient ''John Doe'' (anon (john_doe False) True)
     = (Inl TypeError, (anon (john_doe False) True)\<lparr>attempted := 1\<rparr>)"
  by code_simp

text \<open>
  C2, amended: in the batch of one patient, an image at which the per-image step does not
  raise does not stop the batch, and that includes the one failure that the step catches:
  a \<open>ValueError\<close> of saving the image, which is recorded in the failure list and in the
  counter of attempted images. Every other exception of the step leaves
  \<open>anonymize_patient\<close> at that image; so does the \<open>TypeError\<close> of the string comparison,
  with the image counted as attempted and the failure list as it was.
\<close>

theorem anonymize_patient_catches_save_errors_only:
  assumes "dct s = Some (OrderedDict d)" and "map_of d name = Some patient_alias"
      and "CHR ''/'' \<notin> set name" and "find_dcm s (PathStr name) = Inr (dcm # rest)"
  defines "original \<equiv> (if similar s then Some name else None)"
  defines "step \<equiv> (\<lambda>x. anonymize_dicom x patient_alias original)"
  shows "anonymize_patient name s
           = (case step dcm s of (Inl e, s') \<Rightarrow> (Inl e, s') | (Inr u, s') \<Rightarrow> for_each step rest s')
       \<and> (\<forall>m old. lookup s dcm = Some (File m (Dataset (Some old) True))
              \<and> compare_names s (Some old) original = Inr ()
            \<longrightarrow> step dcm s = (Inr (), s\<lparr>attempted := attempted s + 1, failed := failed s @ [dcm]\<rparr>))
       \<and> (\<forall>m old save_raises. lookup s dcm = Some (File m (Dataset (Some old) save_raises))
              \<and> similar s \<and> name \<noteq> [] \<and> ratio (lower old) (lower name) > threshold s
            \<longrightarrow> anonymize_patient name s = (Inl TypeError, s\<lparr>attempted := attempted s + 1\<rparr>))"
proof -
  have loop: "anonymize_patient name s = for_each step (dcm # rest) s"
    unfolding step_def original_def by (rule anonymize_patient_loop [OF assms(1-4)])
  have 1: "anonymize_patient name s
             = (case step dcm s of (Inl e, s') \<Rightarrow> (Inl e, s') | (Inr u, s') \<Rightarrow> for_each step rest s')"
    unfolding loop by simp
  have 2: "\<forall>m old. lookup s dcm = Some (File m (Dataset (Some old) True))
              \<and> compare_names s (Some old) original = Inr ()
            \<longrightarrow> step dcm s = (Inr (), s\<lparr>attempted := attempted s + 1, failed := failed s @ [dcm]\<rparr>)"
    unfolding step_def using anonymize_dicom_save_error by blast
  have 3: "\<forall>m old save_raises. lookup s dcm = Some (File m (Dataset (Some old) save_raises))
              \<and> similar s \<and> name \<noteq> [] \<and> ratio (lower old) (lower name) > threshold s
            \<longrightarrow> anonymize_patient name s = (Inl TypeError, s\<lparr>attempted := attempted s + 1\<rparr>)"
  proof (intro allI impI, elim conjE)
    fix m old save_raises
    assume h: "lookup s dcm = Some (File m (Dataset (Some old) save_raises))" "similar s"
              "name \<noteq> []" "ratio (lower old) (lower name) > threshold s"
    from h(2) have "step dcm s = anonymize_dicom dcm patient_alias (Some name) s"
      by (simp add: step_def original_def)
    also have "\<dots> = (Inl TypeError, s\<lparr>attempted := attempted s + 1\<rparr>)"
      by (rule anonymize_dicom_similar_raises [OF h])
    finally show "anonymize_patient name s = (Inl TypeError, s\<lparr>attempted := attempted s + 1\<rparr>)"
      unfolding 1 by simp
  qed
  from 1 2 3 show ?thesis by (intro conjI)
qed

theorem anonymize_patient_catches_save_errors_only_witness:
  "anonymize_patient ''John Doe'' (anon (john_doe True) False)
     = (Inr (), (anon (john_doe True) False)
          \<lparr>fs := john_doe True
                  @ [(''/data/John Doe/img2_anon'',
                      File ''DICOM medical imaging data'' (Dataset (Some ''Subject1'') False))],
           failed := [''/data/John Doe/img1''], attempted := 2\<rparr>)"
proof -
  let ?s = "anon (john_doe True) False"
  have d: "dct ?s = Some (OrderedDict [(''John Doe'', ''Subject1'')])" by code_simp
  have a: "map_of [(''John Doe'', ''Subject1'')] ''John Doe'' = Some ''Subject1''" by simp
  have n: "CHR ''/'' \<notin> set ''John Doe''" by simp
  have f: "find_dcm ?s (PathStr ''John Doe'')
             = Inr (''/data/John Doe/img1'' # [''/data/John Doe/img2''])"
    by code_simp
  have e: "(case anonymize_dicom ''/data/John Doe/img1'' ''Subject1''
                   (if similar ?s then Some ''John Doe'' else None) ?s of
              (Inl e, s') \<Rightarrow> (Inl e, s')
            | (Inr u, s') \<Rightarrow>
                for_each (\<lambda>x. anonymize_dicom x ''Subject1''
                                 (if similar ?s then Some ''John Doe'' else None))
                  [''/data/John Doe/img2''] s')
           = (Inr (), ?s
          \<lparr>fs := john_doe True
                  @ [(''/data/John Doe/img2_anon'',
                      File ''DICOM medical imaging data'' (Dataset (Some ''Subject1'') False))],
           failed := [''/data/John Doe/img1''], attempted := 2\<rparr>)"
    by code_simp
  from anonymize_patient_catches_save_errors_only
         [where s = "?s" and d = "[(''John Doe'', ''Subject1'')]" and name = "''John Doe''"
            and patient_alias = "''Subject1''" and dcm = "''/data/John Doe/img1''"
            and rest = "[''/data/John Doe/img2'']", OF d a n f, THEN conjunct1]
  show ?thesis unfolding e .
qed

section \<open>\<open>cleanup\<close> of a list of paths\<close>

text \<open>
  C9: for a list of paths \<open>cleanup\<close> tests \<open>os.path.exists(pts)\<close> on the list itself at the
  first path, which raises a \<open>TypeError\<close> before any image is looked for: nothing is
  deleted, where the claim (and the branch for a single path) deletes every DICOM image
  that does not end in \<open>_anon\<close>.
\<close>

theorem cleanup_of_list_deletes_nothing:
  assumes "ps \<noteq> []"
  shows "cleanup (Some (PathList ps)) s = (Inl TypeError, s)"
proof -
  from assms obtain p rest where ps: "ps = p # rest" by (cases ps) auto
  show ?thesis
    by (simp add: cleanup_def or_paths_def ps exists_list_def Let_def)
qed

theorem cleanup_of_list_deletes_nothing_witness:
  "cleanup (Some (PathList [''/data'']))
       (anon (john_doe False
              @ [(''/data/John Doe/img1_anon'',
                  File ''DICOM medical imaging data'' (Dataset (Some ''Subject1'') False))])
             False)
     = (Inl TypeError,
        anon (john_doe False
              @ [(''/data/John Doe/img1_anon'',
                  File ''DICOM medical imaging data'' (Dataset (Some ''Subject1'') False))])
             False)"
proof -
  have n: "[''/data''] \<noteq> []" by simp
  from cleanup_of_list_deletes_nothing [OF n] show ?thesis .
qed

text \<open>
  The same directory given as a single path: the two images without the suffix are
  deleted and the image that ends in \<open>_anon\<close> stays.
\<close>

lemma cleanup_of_path_example:
  "cleanup (Some (PathStr ''/data''))
       (anon (john_doe False
              @ [(''/data/John Doe/img1_anon'',
                  File ''DICOM medical imaging data'' (Dataset (Some ''Subject1'') False))])
             False)
     = (Inr (),
        (anon (john_doe False) False)
          \<lparr>fs := [(''/'', Dir), (''/data'', Dir), (''/data/John Doe'', Dir),
                  (''/data/John Doe/img1_anon'',
                   File ''DICOM medical imaging data'' (Dataset (Some ''Subject1'') False))]\<rparr>)"
  by code_simp

section \<open>The working directory after the constructors\<close>

lemma seq_Inr:
  assumes "seq m f s = (Inr y, s')"
  obtains x s1 where "m s = (Inr x, s1)" and "f x s1 = (Inr y, s')"
  using assms by (auto simp: seq_def split: prod.splits sum.splits)

lemma chdir_Inr:
  assumes "chdir p s = (Inr u, s')"
  shows "cwd s' = abspath (cwd s) p"
  using assms by (auto simp: chdir_def split: if_splits)

lemma chdir_back:
  assumes "chdir c s = (Inr u, s')" and "isabs c" and "normpath c = c"
  shows "cwd s' = c"
  using chdir_Inr [OF assms(1)] assms(2,3) by (simp add: abspath_def)

lemma seq_chdir_back:
  assumes "seq m (\<lambda>u. chdir c) s0 = (Inr u, s')" and "isabs c" and "normpath c = c"
  shows "cwd s' = c"
proof -
  from assms(1) obtain x s1 where "chdir c s1 = (Inr u, s')" by (rule seq_Inr)
  from chdir_back [OF this assms(2,3)] show ?thesis .
qed

text \<open>
  C10: when the constructor of \<open>Anonymizer\<close>, or that of \<open>Converter\<close> (with any methods
  \<open>to_png\<close> and \<open>convert_all\<close>), returns without raising, the working directory is the one
  that \<open>os.getcwd()\<close> gave on entry, an absolute normal path.
\<close>

theorem constructors_restore_cwd:
  assumes "isabs (cwd os)" and "normpath (cwd os) = cwd os"
  shows "(init paths0 dn verbose0 only_dirs0 similarity_check run log0 log_dir0 yes_to_all0 os
            = (Inr u, self) \<longrightarrow> cwd self = cwd os)
       \<and> (converter_init to_png convert_all dicom_root_path run' log_dir1 verbose1 cleanup1
            yes_to_all1 same_name os = (Inr u', cself) \<longrightarrow> cwd cself = cwd os)"
proof (intro conjI impI)
  assume "init paths0 dn verbose0 only_dirs0 similarity_check run log0 log_dir0 yes_to_all0 os
            = (Inr u, self)"
  then obtain s0 where
    "seq (init_body dn run) (\<lambda>u. chdir (cwd os)) s0 = (Inr u, self)"
    by (auto simp: init_def Let_def split: sum.splits)
  from seq_chdir_back [OF this assms] show "cwd self = cwd os" .
next
  assume "converter_init to_png convert_all dicom_root_path run' log_dir1 verbose1 cleanup1
            yes_to_all1 same_name os = (Inr u', cself)"
  then show "cwd cself = cwd os"
    unfolding converter_init_def Let_def by (rule seq_chdir_back) (rule assms)+
qed

theorem constructors_restore_cwd_witness:
  "fst (init (Some (PathStr ''/data'')) (DictionDict [(''Jane Roe'', ''Subject1'')]) False True
          True False True (Some ''./logs'') True
          \<lparr>cwd = ''/'', fs = john_doe False, inputs = []\<rparr>) = Inr ()
   \<and> cwd (snd (init (Some (PathStr ''/data'')) (DictionDict [(''Jane Roe'', ''Subject1'')]) False
          True True False True (Some ''./logs'') True
          \<lparr>cwd = ''/'', fs = john_doe False, inputs = []\<rparr>)) = ''/''
   \<and> fst (converter_init (\<lambda>dcm same_name s. (Inr (), s)) (chdir ''/data'') ''/data'' True None
          False False False False \<lparr>cwd = ''/'', fs = john_doe False, inputs = []\<rparr>) = Inr ()
   \<and> cwd (snd (converter_init (\<lambda>dcm same_name s. (Inr (), s)) (chdir ''/data'') ''/data'' True
          None False False False False \<lparr>cwd = ''/'', fs = john_doe False, inputs = []\<rparr>)) = ''/''"
proof -
  let ?os = "\<lparr>cwd = ''/'', fs = john_doe False, inputs = []\<rparr>"
  let ?i = "init (Some (PathStr ''/data'')) (DictionDict [(''Jane Roe'', ''Subject1'')]) False True
          True False True (Some ''./logs'') True ?os"
  let ?c = "converter_init (\<lambda>dcm same_name s. (Inr (), s)) (chdir ''/data'') ''/data'' True None
          False False False False ?os"
  have a: "isabs (cwd ?os)" by code_simp
  have n: "normpath (cwd ?os) = cwd ?os" by code_simp
  have i: "fst ?i = Inr ()" by code_simp
  have c: "fst ?c = Inr ()" by code_simp
  have i': "?i = (Inr (), snd ?i)" using i by (metis prod.collapse)
  have c': "?c = (Inr (), snd ?c)" using c by (metis prod.collapse)
  from constructors_restore_cwd
         [where os = "?os" and self = "snd ?i" and cself = "snd ?c" and u = "()" and u' = "()"
            and ?paths0.0 = "Some (PathStr ''/data'')"
            and dn = "DictionDict [(''Jane Roe'', ''Subject1'')]"
            and ?verbose0.0 = False and ?only_dirs0.0 = True and similarity_check = True
            and run = False and ?log0.0 = True and ?log_dir0.0 = "Some ''./logs''"
            and ?yes_to_all0.0 = True
            and to_png = "\<lambda>dcm same_name s. (Inr (), s)" and convert_all = "chdir ''/data''"
            and dicom_root_path = "''/data''" and run' = True and ?log_dir1.0 = None
            and ?verbose1.0 = False and ?cleanup1.0 = False and ?yes_to_all1.0 = False
            and same_name = False, OF a n]
       i' c'
  have "cwd (snd ?i) = cwd ?os \<and> cwd (snd ?c) = cwd ?os" by blast
  with i c show ?thesis by simp
qed

section \<open>The dictionary on disk\<close>

lemma map_of_replace:
  assumes "map_of xs a \<noteq> None"
  shows "map_of (map (\<lambda>(q, n). if q = a then (q, v) else (q, n)) xs) a = Some v"
  using assms by (induction xs) (auto split: if_splits)

lemma write_file_lookup:
  assumes "write_file p m c s = (Inr u, s')"
  shows "map_of (fs s') (abspath (cwd s) p) = Some (File m c)"
proof (cases "map_of (fs s) (abspath (cwd s) p) = None")
  case True
  with assms have "fs s' = fs s @ [(abspath (cwd s) p, File m c)]"
    by (auto simp: write_file_def Let_def split: if_splits)
  with True show ?thesis by (simp add: map_add_def)
next
  case False
  with assms have "fs s' = map (\<lambda>(q, n). if q = abspath (cwd s) p then (q, File m c) else (q, n)) (fs s)"
    by (auto simp: write_file_def Let_def split: if_splits)
  with map_of_replace [OF False] show ?thesis by simp
qed

text \<open>
  C7: once the constructor has saved the dictionary \<open>d\<close> (\<open>pkl.dump(self.dct, open(
  'anonymizer_dictionary.pkl', 'wb'))\<close>), a constructor that is given a path \<open>p\<close> to that
  file, on the same files, loads \<open>d\<close>: the same pairs in the same order.
\<close>

theorem load_saved_dictionary:
  assumes "dct s = Some (OrderedDict d)"
    and "save_dictionary s = (Inr u, s')"
    and "fs t = fs s'"
    and "p \<noteq> []" and "last p \<noteq> CHR ''/''"
    and "abspath (cwd t) p = abspath (cwd s) ''anonymizer_dictionary.pkl''"
  shows "load_diction (DictionPath p) t = (Inr (), t\<lparr>dct := Some (OrderedDict d)\<rparr>)"
proof -
  from assms(1,2) have "map_of (fs s') (abspath (cwd s) ''anonymizer_dictionary.pkl'')
      = Some (File ''data'' (Pickle (OrderedDict d)))"
    by (auto simp: save_dictionary_def dest: write_file_lookup)
  with assms(3-6) have "lookup t p = Some (File ''data'' (Pickle (OrderedDict d)))"
    by (simp add: lookup_def)
  then show ?thesis
    by (simp add: load_diction_def exists_def pickle_load_def)
qed

theorem load_saved_dictionary_witness:
  "load_diction (DictionPath ''data/anonymizer_dictionary.pkl'')
      ((snd (save_dictionary
               ((anon (john_doe False) False)
                  \<lparr>dct := Some (OrderedDict [(''John Doe'', ''Subject1''),
                                            (''Adam Ant'', ''Subject2'')])\<rparr>)))
         \<lparr>cwd := ''/'', dct := None\<rparr>)
     = (Inr (),
        (snd (save_dictionary
               ((anon (john_doe False) False)
                  \<lparr>dct := Some (OrderedDict [(''John Doe'', ''Subject1''),
                                            (''Adam Ant'', ''Subject2'')])\<rparr>)))
         \<lparr>cwd := ''/'', dct := Some (OrderedDict [(''John Doe'', ''Subject1''),
                                                  (''Adam Ant'', ''Subject2'')])\<rparr>)"
proof -
  let ?d = "[(''John Doe'', ''Subject1''), (''Adam Ant'', ''Subject2'')]"
  let ?s = "(anon (john_doe False) False)\<lparr>dct := Some (OrderedDict ?d)\<rparr>"
  let ?s' = "snd (save_dictionary ?s)"
  let ?t = "?s'\<lparr>cwd := ''/'', dct := None\<rparr>"
  let ?p = "''data/anonymizer_dictionary.pkl''"
  have 1: "dct ?s = Some (OrderedDict ?d)" by simp
  have "fst (save_dictionary ?s) = Inr ()" by code_simp
  then have 2: "save_dictionary ?s = (Inr (), ?s')" by (metis prod.collapse)
  have 3: "fs ?t = fs ?s'" by simp
  have 4: "?p \<noteq> []" by simp
  have 5: "last ?p \<noteq> CHR ''/''" by simp
  have 6: "abspath (cwd ?t) ?p = abspath (cwd ?s) ''anonymizer_dictionary.pkl''" by code_simp
  from load_saved_dictionary [of ?s ?d "()" ?s' ?t ?p, OF 1 2 3 4 5 6] show ?thesis by simp
qed

section \<open>\<open>create_anon_dict\<close>\<close>

lemma dict_set_new:
  "k \<notin> set (map fst d) \<Longrightarrow> dict_set k v (d @ e) = d @ dict_set k v e"
  by (induction d) auto

lemma dict_update_append:
  "set (map fst kvs) \<inter> set (map fst d) = {} \<Longrightarrow> dict_update kvs (d @ e) = d @ dict_update kvs e"
proof (induction kvs arbitrary: e)
  case Nil
  show ?case by simp
next
  case (Cons kv kvs)
  obtain k v where kv: "kv = (k, v)" by (cases kv)
  from Cons.prems have k: "k \<notin> set (map fst d)"
    and rest: "set (map fst kvs) \<inter> set (map fst d) = {}"
    by (auto simp: kv)
  show ?case by (simp add: kv dict_set_new [OF k] Cons.IH [OF rest])
qed

lemma dict_set_keys: "fst ` set (dict_set k v d) = insert k (fst ` set d)"
  by (induction d) (force split: if_splits)+

lemma dict_update_keys:
  "fst ` set (dict_update kvs d) = fst ` set kvs \<union> fst ` set d"
proof (induction kvs arbitrary: d)
  case Nil
  show ?case by simp
next
  case (Cons kv kvs)
  obtain k v where kv: "kv = (k, v)" by (cases kv)
  show ?case by (simp add: kv Cons.IH dict_set_keys)
qed


lemma lookup_dct [simp]: "lookup (s\<lparr>dct := x\<rparr>) p = lookup s p"
  by (simp add: lookup_def)

lemma isdir_dct [simp]: "isdir (s\<lparr>dct := x\<rparr>) p = isdir s p"
  by (simp add: isdir_def)





section \<open>\<open>update_dict\<close>\<close>

lemma get_dct_Some: "dct s = Some (OrderedDict d) \<Longrightarrow> get_dct s = Inr d"
  by (simp add: get_dct_def)

lemma new_patients_filter:
  assumes "dct s = Some (OrderedDict d)"
  shows "new_patients s names = Inr (filter (\<lambda>x. isdir s x \<and> x \<notin> fst ` set d) names)"
  by (induction names) (simp_all add: get_dct_Some [OF assms])

lemma lookup_cong:
  "fs t = fs s \<Longrightarrow> abspath (cwd t) p = abspath (cwd s) p \<Longrightarrow> lookup t p = lookup s p"
  by (simp add: lookup_def)

lemma abspath_isabs: "isabs p \<Longrightarrow> abspath c p = normpath p"
  by (simp add: abspath_def)

text \<open>
  What \<open>collect_patients\<close> does to the state: only the working directory changes. The
  names that it adds are not keys of the dictionary.
\<close>

lemma collect_patients_state:
  assumes "collect_patients pts acc s = (r, s1)"
  shows "fs s1 = fs s \<and> dct s1 = dct s \<and> inputs s1 = inputs s \<and> yes_to_all s1 = yes_to_all s"
  using assms
proof (induction pts arbitrary: acc s)
  case Nil
  then show ?case by simp
next
  case (Cons pt rest)
  show ?case
  proof (cases "exists s pt \<and> isdir s pt")
    case False
    with Cons.prems show ?thesis by (auto simp: chdir_def split: if_splits)
  next
    case True
    let ?s1 = "s\<lparr>cwd := abspath (cwd s) pt\<rparr>"
    from True have c: "chdir pt s = (Inr (), ?s1)" by (simp add: chdir_def)
    show ?thesis
    proof (cases "listdir ?s1 pt")
      case (Inl e)
      with Cons.prems True c show ?thesis by auto
    next
      case (Inr names)
      show ?thesis
      proof (cases "new_patients ?s1 names")
        case (Inl e)
        with Cons.prems True c Inr show ?thesis by auto
      next
        case (Inr xs)
        with Cons.prems True c \<open>listdir ?s1 pt = Inr names\<close>
        have "collect_patients rest (acc @ xs) ?s1 = (r, s1)" by simp
        from Cons.IH [OF this] show ?thesis by simp
      qed
    qed
  qed
qed

lemma collect_patients_new:
  assumes "dct s = Some (OrderedDict d)" and "collect_patients pts acc s = (Inr ps, s1)"
  shows "set ps \<inter> fst ` set d \<subseteq> set acc"
  using assms
proof (induction pts arbitrary: acc s)
  case Nil
  then show ?case by auto
next
  case (Cons pt rest)
  let ?s1 = "s\<lparr>cwd := abspath (cwd s) pt\<rparr>"
  have d1: "dct ?s1 = Some (OrderedDict d)" using Cons.prems(1) by simp
  from Cons.prems(2) have e: "exists s pt" and i: "isdir s pt"
    by (auto simp: chdir_def split: if_splits)
  from i have c: "chdir pt s = (Inr (), ?s1)" by (simp add: chdir_def)
  from Cons.prems(2) e c obtain names where n: "listdir ?s1 pt = Inr names"
    by (cases "listdir ?s1 pt") auto
  let ?xs = "filter (\<lambda>x. isdir ?s1 x \<and> x \<notin> fst ` set d) names"
  from Cons.prems(2) e c n new_patients_filter [OF d1]
  have "collect_patients rest (acc @ ?xs) ?s1 = (Inr ps, s1)" by simp
  from Cons.IH [OF d1 this] show ?case by auto
qed

lemma collect_patients_acc:
  assumes "collect_patients pts acc s = (Inr ps, s1)"
  shows "set acc \<subseteq> set ps"
  using assms
proof (induction pts arbitrary: acc s)
  case Nil
  then show ?case by auto
next
  case (Cons pt rest)
  let ?s1 = "s\<lparr>cwd := abspath (cwd s) pt\<rparr>"
  from Cons.prems have e: "exists s pt" and i: "isdir s pt"
    by (auto simp: chdir_def split: if_splits)
  from i have c: "chdir pt s = (Inr (), ?s1)" by (simp add: chdir_def)
  from Cons.prems e c obtain names where n: "listdir ?s1 pt = Inr names"
    by (cases "listdir ?s1 pt") auto
  from Cons.prems e c n obtain xs where x: "new_patients ?s1 names = Inr xs"
    by (cases "new_patients ?s1 names") auto
  from Cons.prems e c n x have "collect_patients rest (acc @ xs) ?s1 = (Inr ps, s1)" by simp
  from Cons.IH [OF this] show ?case by simp
qed

text \<open>
  Two runs of \<open>collect_patients\<close> over the same absolute paths and the same files: the
  second run returns, and a name that it adds is a name that the first run added or a key
  of the first dictionary, and it is not a key of the second dictionary.
\<close>

lemma collect_patients_again:
  assumes "\<forall>pt \<in> set pts. isabs pt" and "fs t = fs s"
    and "dct s = Some (OrderedDict d)" and "dct t = Some (OrderedDict d')"
    and "collect_patients pts acc s = (Inr ps, s1)"
  shows "\<exists>ps' t1. collect_patients pts acc' t = (Inr ps', t1)
            \<and> set ps' \<subseteq> set acc' \<union> ((set ps \<union> fst ` set d) - fst ` set d')"
  using assms
proof (induction pts arbitrary: acc acc' s t)
  case Nil
  then show ?case by simp
next
  case (Cons pt rest)
  let ?s1 = "s\<lparr>cwd := abspath (cwd s) pt\<rparr>"
  let ?t1 = "t\<lparr>cwd := abspath (cwd t) pt\<rparr>"
  from Cons.prems(1) have a: "isabs pt" and r: "\<forall>pt \<in> set rest. isabs pt" by simp_all
  have cw: "abspath (cwd t) pt = abspath (cwd s) pt" by (simp add: abspath_isabs [OF a])
  have l: "lookup t pt = lookup s pt" by (rule lookup_cong [OF Cons.prems(2) cw])
  have l1: "\<And>x. lookup ?t1 x = lookup ?s1 x"
    by (rule lookup_cong) (simp_all add: Cons.prems(2) cw)
  have d1: "dct ?s1 = Some (OrderedDict d)" using Cons.prems(3) by simp
  have d1': "dct ?t1 = Some (OrderedDict d')" using Cons.prems(4) by simp
  have f1: "fs ?t1 = fs ?s1" using Cons.prems(2) by simp
  from Cons.prems(5) have e: "exists s pt" and i: "isdir s pt"
    by (auto simp: chdir_def split: if_splits)
  from e i l have e': "exists t pt" and i': "isdir t pt" by (simp_all add: exists_def isdir_def)
  from i have c: "chdir pt s = (Inr (), ?s1)" by (simp add: chdir_def)
  from i' have c': "chdir pt t = (Inr (), ?t1)" by (simp add: chdir_def)
  from Cons.prems(5) e c obtain names where n: "listdir ?s1 pt = Inr names"
    by (cases "listdir ?s1 pt") auto
  have "listdir ?t1 pt = listdir ?s1 pt"
    unfolding listdir_def Let_def l1 by (simp add: Cons.prems(2) cw)
  with n have n': "listdir ?t1 pt = Inr names" by simp
  let ?xs = "filter (\<lambda>x. isdir ?s1 x \<and> x \<notin> fst ` set d) names"
  let ?xs' = "filter (\<lambda>x. isdir ?t1 x \<and> x \<notin> fst ` set d') names"
  from Cons.prems(5) e c n new_patients_filter [OF d1]
  have run: "collect_patients rest (acc @ ?xs) ?s1 = (Inr ps, s1)" by simp
  from Cons.IH [OF r f1 d1 d1' run, of "acc' @ ?xs'"]
  obtain ps' t1 where run': "collect_patients rest (acc' @ ?xs') ?t1 = (Inr ps', t1)"
    and sub: "set ps' \<subseteq> set (acc' @ ?xs') \<union> ((set ps \<union> fst ` set d) - fst ` set d')"
    by blast
  from collect_patients_acc [OF run] have acc: "set ?xs \<subseteq> set ps" by simp
  have "set ?xs' \<subseteq> (set ps \<union> fst ` set d) - fst ` set d'"
  proof
    fix x
    assume "x \<in> set ?xs'"
    then have x: "x \<in> set names" "isdir ?s1 x" "x \<notin> fst ` set d'"
      using l1 by (simp_all add: isdir_def)
    show "x \<in> (set ps \<union> fst ` set d) - fst ` set d'"
    proof (cases "x \<in> fst ` set d")
      case True
      with x(3) show ?thesis by simp
    next
      case False
      with x(1,2) have "x \<in> set ?xs" by simp
      with acc x(3) show ?thesis by auto
    qed
  qed
  with sub have "set ps' \<subseteq> set acc' \<union> ((set ps \<union> fst ` set d) - fst ` set d')" by auto
  moreover from e' c' n' new_patients_filter [OF d1'] run'
  have "collect_patients (pt # rest) acc' t = (Inr ps', t1)" by simp
  ultimately show ?case by blast
qed

subsection \<open>The names that are added\<close>

lemma index_mem: "index xs i = Inr x \<Longrightarrow> x \<in> set xs"
  by (auto simp: index_def Let_def split: if_splits)

lemma index_each_subset: "index_each xs js = Inr ys \<Longrightarrow> set ys \<subseteq> set xs"
proof (induction js arbitrary: ys)
  case Nil
  then show ?case by simp
next
  case (Cons j js)
  then show ?case by (auto split: sum.splits dest: index_mem)
qed

lemma select_patients_subset:
  "select_patients key patients = Inr (Some chosen) \<Longrightarrow> set chosen \<subseteq> set patients"
  by (auto simp: select_patients_def split: if_splits sum.splits
           dest: index_mem index_each_subset)

lemma zip_subjects_keys:
  "fst ` set (zip chosen (map subject [n + 1 ..< n + length chosen + 1])) = set chosen"
proof -
  have "length chosen = length (map subject [n + 1 ..< n + length chosen + 1])"
    by (simp del: upt_Suc)
  from map_fst_zip [OF this] show ?thesis by (metis set_map)
qed

lemma add_patients_appends:
  assumes "dct s = Some (OrderedDict d)" and "set chosen \<inter> fst ` set d = {}"
  shows "\<exists>e. add_patients chosen s = (Inr (), s\<lparr>dct := Some (OrderedDict (d @ e))\<rparr>)
             \<and> fst ` set e = set chosen"
proof -
  let ?kvs = "zip chosen (map subject [length d + 1 ..< length d + length chosen + 1])"
  have a: "add_patients chosen s = (Inr (), s\<lparr>dct := Some (OrderedDict (dict_update ?kvs d))\<rparr>)"
    by (simp add: add_patients_def get_dct_Some [OF assms(1)] Let_def del: upt_Suc)
  from assms(2) have "set (map fst ?kvs) \<inter> set (map fst d) = {}"
    by (simp only: set_map zip_subjects_keys)
  from dict_update_append [OF this, of "[]"]
  have "dict_update ?kvs d = d @ dict_update ?kvs []" by simp
  moreover have "fst ` set (dict_update ?kvs []) = set chosen"
    by (simp only: dict_update_keys zip_subjects_keys) simp
  ultimately show ?thesis using a by auto
qed

text \<open>
  An \<open>update_dict\<close> either leaves the dictionary as it is, or ends with the update of the
  dictionary by names that \<open>collect_patients\<close> found.
\<close>

lemma update_dict_outcome:
  assumes "dct s = Some (OrderedDict d)" and "update_dict pts no_check s = (r, s1)"
  shows "dct s1 = dct s
       \<or> (\<exists>chosen s'. dct s' = dct s \<and> set chosen \<inter> fst ` set d = {}
             \<and> add_patients chosen s' = (r, s1))"
proof (cases "case pts of PathStr p \<Rightarrow> Inr [p] | PathList ps \<Rightarrow> Inr ps | NotAPath \<Rightarrow> Inl TypeError")
  case (Inl e)
  with assms(2) show ?thesis by (simp add: update_dict_def)
next
  case (Inr l)
  obtain rc sc where c: "collect_patients l [] s = (rc, sc)" by (cases "collect_patients l [] s")
  from collect_patients_state [OF c] have sc: "dct sc = dct s" by simp
  show ?thesis
  proof (cases rc)
    case (Inl e)
    with assms(2) Inr c sc show ?thesis by (simp add: update_dict_def)
  next
    case rc: (Inr patients)
    from collect_patients_new [OF assms(1) c [unfolded rc]]
    have new: "set patients \<inter> fst ` set d = {}" by simp
    show ?thesis
    proof (cases "patients \<noteq> [] \<and> \<not> (if yes_to_all s then True else no_check)")
      case False
      with assms(2) Inr c rc have "add_patients patients sc = (r, s1)"
        by (simp add: update_dict_def)
      with sc new show ?thesis by blast
    next
      case True
      obtain ri si where i: "input sc = (ri, si)" by (cases "input sc")
      then have si: "dct si = dct sc" by (auto simp: input_def split: list.splits)
      show ?thesis
      proof (cases ri)
        case (Inl e)
        with assms(2) Inr c rc True i sc si show ?thesis by (simp add: update_dict_def)
      next
        case key: (Inr key)
        show ?thesis
        proof (cases "select_patients key patients")
          case (Inl e)
          with assms(2) Inr c rc True i key sc si show ?thesis by (simp add: update_dict_def)
        next
          case sel: (Inr chosen0)
          show ?thesis
          proof (cases chosen0)
            case None
            with assms(2) Inr c rc True i key sel sc si show ?thesis
              by (simp add: update_dict_def)
          next
            case (Some chosen)
            with assms(2) Inr c rc True i key sel
            have a: "add_patients chosen si = (r, s1)" by (simp add: update_dict_def)
            from select_patients_subset [OF sel [unfolded Some]] new
            have "set chosen \<inter> fst ` set d = {}" by auto
            with a sc si show ?thesis by auto
          qed
        qed
      qed
    qed
  qed
qed

lemma update_dict_appends:
  assumes "dct s = Some (OrderedDict d)" and "update_dict pts no_check s = (r, s1)"
  shows "\<exists>e. dct s1 = Some (OrderedDict (d @ e)) \<and> fst ` set e \<inter> fst ` set d = {}"
proof -
  from update_dict_outcome [OF assms] show ?thesis
  proof
    assume "dct s1 = dct s"
    with assms(1) have "dct s1 = Some (OrderedDict (d @ []))" by simp
    then show ?thesis by (intro exI [of _ "[]"]) simp
  next
    assume "\<exists>chosen s'. dct s' = dct s \<and> set chosen \<inter> fst ` set d = {}
              \<and> add_patients chosen s' = (r, s1)"
    then obtain chosen s' where s': "dct s' = Some (OrderedDict d)"
      and new: "set chosen \<inter> fst ` set d = {}" and a: "add_patients chosen s' = (r, s1)"
      using assms(1) by auto
    from add_patients_appends [OF s' new] a obtain e
      where "s1 = s'\<lparr>dct := Some (OrderedDict (d @ e))\<rparr>" and "fst ` set e = set chosen"
      by auto
    with new have "dct s1 = Some (OrderedDict (d @ e)) \<and> fst ` set e \<inter> fst ` set d = {}"
      by simp
    then show ?thesis by blast
  qed
qed

text \<open>
  A second \<open>update_dict\<close> over the same absolute paths, after one that took every new
  name, finds no new name.
\<close>

lemma update_dict_again:
  assumes "dct s = Some (OrderedDict d)" and "update_dict pts no_check s = (Inr u, s1)"
    and "no_check \<or> yes_to_all s"
    and "\<forall>pt \<in> set (case pts of PathStr p \<Rightarrow> [p] | PathList ps \<Rightarrow> ps | NotAPath \<Rightarrow> []). isabs pt"
  shows "fst (update_dict pts no_check' s1) = Inr ()
       \<and> dct (snd (update_dict pts no_check' s1)) = dct s1"
proof -
  from assms(2) obtain l where l: "(case pts of PathStr p \<Rightarrow> Inr [p] | PathList ps \<Rightarrow> Inr ps
      | NotAPath \<Rightarrow> Inl TypeError) = (Inr l :: exc + string list)"
    by (cases pts) (simp_all add: update_dict_def)
  with assms(4) have abs: "\<forall>pt \<in> set l. isabs pt" by (cases pts) auto
  obtain rc sc where c: "collect_patients l [] s = (rc, sc)" by (cases "collect_patients l [] s")
  from collect_patients_state [OF c] have sc: "dct sc = Some (OrderedDict d)" "fs sc = fs s"
    using assms(1) by simp_all
  from assms(2) l c obtain patients where rc: "rc = Inr patients"
    by (cases rc) (simp_all add: update_dict_def)
  from assms(2,3) l c rc have a: "add_patients patients sc = (Inr u, s1)"
    by (auto simp: update_dict_def split: if_splits)
  from collect_patients_new [OF assms(1) c [unfolded rc]]
  have new: "set patients \<inter> fst ` set d = {}" by simp
  from add_patients_appends [OF sc(1) new] a obtain e
    where s1: "s1 = sc\<lparr>dct := Some (OrderedDict (d @ e))\<rparr>" and e: "fst ` set e = set patients"
    by auto
  from s1 sc(2) have f: "fs s1 = fs s" and d1: "dct s1 = Some (OrderedDict (d @ e))" by simp_all
  from collect_patients_again [OF abs f assms(1) d1 c [unfolded rc], of "[]"]
  obtain ps' t1 where c': "collect_patients l [] s1 = (Inr ps', t1)"
    and sub: "set ps' \<subseteq> set [] \<union> ((set patients \<union> fst ` set d) - fst ` set (d @ e))"
    by blast
  have k: "fst ` set (d @ e) = fst ` set d \<union> fst ` set e" by (simp add: image_Un)
  have "set ps' \<subseteq> {}" using sub unfolding k e empty_set by blast
  then have ps': "ps' = []" by simp
  from collect_patients_state [OF c'] d1 have t1: "dct t1 = Some (OrderedDict (d @ e))" by simp
  from l c' ps' have "update_dict pts no_check' s1 = add_patients [] t1"
    by (simp add: update_dict_def)
  also have "\<dots> = (Inr (), t1\<lparr>dct := Some (OrderedDict (d @ e))\<rparr>)"
    by (simp add: add_patients_def get_dct_Some [OF t1])
  finally show ?thesis using d1 by simp
qed

text \<open>
  C6: \<open>update_dict\<close> only appends to the dictionary. Whatever its outcome (also when it
  raises, and whatever the user selects), the entries that the dictionary had are the
  first entries of the dictionary afterwards, in the same order and with the same aliases,
  and the keys that follow them are new. After an \<open>update_dict\<close> that went through without
  a selection by the user (\<open>no_check\<close> or \<open>yes_to_all\<close>), a second \<open>update_dict\<close> over the
  same absolute paths returns and leaves the dictionary as it is.
\<close>

theorem update_dict_append_only:
  assumes "dct s = Some (OrderedDict d)" and "update_dict pts no_check s = (r, s1)"
  shows "(\<exists>d'. dct s1 = Some (OrderedDict d')
            \<and> length d \<le> length d' \<and> take (length d) d' = d
            \<and> (\<forall>k v. map_of d k = Some v \<longrightarrow> map_of d' k = Some v)
            \<and> fst ` set (drop (length d) d') \<inter> fst ` set d = {})
       \<and> (r = Inr () \<and> (no_check \<or> yes_to_all s)
            \<and> (\<forall>pt \<in> set (case pts of PathStr p \<Rightarrow> [p] | PathList ps \<Rightarrow> ps | NotAPath \<Rightarrow> []).
                  isabs pt)
          \<longrightarrow> fst (update_dict pts no_check' s1) = Inr ()
              \<and> dct (snd (update_dict pts no_check' s1)) = dct s1)"
proof (intro conjI impI)
  from update_dict_appends [OF assms] obtain e
    where e: "dct s1 = Some (OrderedDict (d @ e))" "fst ` set e \<inter> fst ` set d = {}"
    by blast
  have "\<forall>k v. map_of d k = Some v \<longrightarrow> map_of (d @ e) k = Some v"
    by (simp add: map_add_Some_iff)
  with e show "\<exists>d'. dct s1 = Some (OrderedDict d')
            \<and> length d \<le> length d' \<and> take (length d) d' = d
            \<and> (\<forall>k v. map_of d k = Some v \<longrightarrow> map_of d' k = Some v)
            \<and> fst ` set (drop (length d) d') \<inter> fst ` set d = {}"
    by (intro exI [of _ "d @ e"]) simp
next
  assume a: "r = Inr () \<and> (no_check \<or> yes_to_all s)
            \<and> (\<forall>pt \<in> set (case pts of PathStr p \<Rightarrow> [p] | PathList ps \<Rightarrow> ps | NotAPath \<Rightarrow> []).
                  isabs pt)"
  with assms(2) have u: "update_dict pts no_check s = (Inr (), s1)" by simp
  from a have n: "no_check \<or> yes_to_all s" by simp
  from a have p: "\<forall>pt \<in> set (case pts of PathStr p \<Rightarrow> [p] | PathList ps \<Rightarrow> ps | NotAPath \<Rightarrow> []).
                  isabs pt" by simp
  from update_dict_again [OF assms(1) u n p, of no_check']
  show "fst (update_dict pts no_check' s1) = Inr ()"
    and "dct (snd (update_dict pts no_check' s1)) = dct s1"
    by simp_all
qed

theorem update_dict_append_only_witness:
  "dct (snd (update_dict (PathStr ''/data'') True
               (anon (john_doe False @ [(''/data/Adam Ant'', Dir)]) False)))
     = Some (OrderedDict [(''John Doe'', ''Subject1''), (''Adam Ant'', ''Subject2'')])
   \<and> fst (update_dict (PathStr ''/data'') False
            (snd (update_dict (PathStr ''/data'') True
                    (anon (john_doe False @ [(''/data/Adam Ant'', Dir)]) False)))) = Inr ()
   \<and> dct (snd (update_dict (PathStr ''/data'') False
                 (snd (update_dict (PathStr ''/data'') True
                         (anon (john_doe False @ [(''/data/Adam Ant'', Dir)]) False)))))
     = Some (OrderedDict [(''John Doe'', ''Subject1''), (''Adam Ant'', ''Subject2'')])"
proof -
  let ?s = "anon (john_doe False @ [(''/data/Adam Ant'', Dir)]) False"
  let ?d = "[(''John Doe'', ''Subject1'')]"
  let ?s1 = "snd (update_dict (PathStr ''/data'') True ?s)"
  have 1: "dct ?s = Some (OrderedDict ?d)" by (simp add: anon_def)
  have "fst (update_dict (PathStr ''/data'') True ?s) = Inr ()" by code_simp
  then have 2: "update_dict (PathStr ''/data'') True ?s = (Inr (), ?s1)"
    by (metis prod.collapse)
  have 3: "dct ?s1
      = Some (OrderedDict [(''John Doe'', ''Subject1''), (''Adam Ant'', ''Subject2'')])"
    by code_simp
  have 4: "isabs ''/data''" by code_simp
  from update_dict_append_only [of ?s ?d "PathStr ''/data''" True "Inr ()" ?s1 False, OF 1 2] 4
  have "fst (update_dict (PathStr ''/data'') False ?s1) = Inr ()
      \<and> dct (snd (update_dict (PathStr ''/data'') False ?s1)) = dct ?s1"
    by simp
  with 3 show ?thesis by simp
qed

end
